theory Spec2Isabelle
  imports Main "HOL-Library.Word" "HOL-Library.Sublist"
begin

section \<open>The socket interposition layer of TAS (lib/sockets/interpose.c)\<close>

text \<open>
  The file interposes the libc socket calls of a process. Every interposed function
  hands the call to the TAS socket library (\<open>tas_*\<close>) and, for most of them, to the
  libc function found with \<open>dlsym(RTLD_NEXT, ...)\<close> when TAS answers \<open>-1\<close> with
  \<open>errno = EBADF\<close>. The model below is a shallow embedding: each C function is a
  function from the state before the call to an outcome, the two backends and the dynamic
  linker are parameters, and every call into them is written to a trace.
\<close>

subsection \<open>Values\<close>

text \<open>
  C \<open>int\<close>, \<open>ssize_t\<close>, \<open>size_t\<close> and \<open>socklen_t\<close> values are only compared and
  passed on, never computed with, so they are mathematical integers. The widths that
  matter are written out: the contention counter is a \<open>uint32_t\<close>, the two flags are
  \<open>uint8_t\<close>, pointers and variadic argument slots are 64 bits wide.
\<close>

type_synonym ptr = "64 word"

definition NULL :: ptr where
  "NULL = 0"

text \<open>The 22 function pointers \<open>libc_*\<close> declared at the top of the file, in order.\<close>

datatype handle =
    libc_socket | libc_close | libc_shutdown | libc_bind | libc_connect | libc_listen
  | libc_accept4 | libc_accept | libc_fcntl | libc_getsockopt | libc_setsockopt
  | libc_getsockname | libc_getpeername | libc_read | libc_recv | libc_recvfrom
  | libc_recvmsg | libc_write | libc_send | libc_sendto | libc_sendmsg | libc_select

text \<open>
  A call of one of the 27 operations with its arguments, in the order of the C
  prototypes. The type parameter is the third argument of \<open>fcntl\<close>: the variadic
  slots for the call the application makes, one \<open>int\<close> for the call a backend receives.
\<close>

datatype 'a call =
    Socket int int int
  | Close int
  | Shutdown int int
  | Bind int ptr int
  | Connect int ptr int
  | Listen int int
  | Accept4 int ptr ptr int
  | Accept int ptr ptr
  | Fcntl int int 'a
  | Getsockopt int int int ptr ptr
  | Setsockopt int int int ptr int
  | Getsockname int ptr ptr
  | Getpeername int ptr ptr
  | Read int ptr int
  | Recv int ptr int int
  | Recvfrom int ptr int int ptr ptr
  | Recvmsg int ptr int
  | Write int ptr int
  | Send int ptr int int
  | Sendto int ptr int int ptr int
  | Sendmsg int ptr int
  | Select int ptr ptr ptr ptr
  | Epoll_create int
  | Epoll_create1 int
  | Epoll_ctl int int int ptr
  | Epoll_wait int ptr int int
  | Epoll_pwait int ptr int int ptr

type_synonym va_list = "64 word list"

text \<open>What the code does that another thread or the outside can see.\<close>

datatype event =
    Ev_ensure_init
  | Ev_fetch_and_add "32 word"
  | Ev_dlsym string
  | Ev_assign handle ptr
  | Ev_fprintf string
  | Ev_abort
  | Ev_tas_init
  | Ev_barrier
  | Ev_publish
  | Ev_yield
  | Ev_tas "int call"
  | Ev_libc handle ptr "int call"

subsection \<open>State and environment\<close>

text \<open>
  The state one thread works on: its \<open>errno\<close> and \<open>in_init\<close> (both thread-local),
  the statics \<open>init_cnt\<close> and \<open>init_done\<close> of \<open>ensure_init\<close>, the table of function
  pointers, whatever the backends keep (\<open>world\<close>), and the trace.
\<close>

record 'w state =
  errno :: int
  init_cnt :: "32 word"
  init_done :: "8 word"
  in_init :: "8 word"
  libc :: "handle \<Rightarrow> ptr"
  world :: 'w
  trace :: "event list"

text \<open>
  What the file takes from elsewhere: three constants of the system headers, the dynamic
  linker, the TAS library (\<open>tas_sockets.h\<close>), the code behind a function pointer, the
  value \<open>va_arg\<close> finds in the first variadic slot when the caller passed none, and
  what the other threads do to the shared variables while this one yields. A backend
  call maps \<open>errno\<close> and the world before the call to the value returned, \<open>errno\<close> and
  the world after it.
\<close>

record 'w env =
  AF_INET :: int
  SOCK_STREAM :: int
  EBADF :: int
  dlsym_next :: "string \<Rightarrow> ptr"
  tas_init :: "int \<times> 'w \<Rightarrow> int \<times> int \<times> 'w"
  tas_op :: "int call \<Rightarrow> int \<times> 'w \<Rightarrow> int \<times> int \<times> 'w"
  libc_op :: "ptr \<Rightarrow> int call \<Rightarrow> int \<times> 'w \<Rightarrow> int \<times> int \<times> 'w"
  va_residue :: "64 word"
  others :: "'w state \<Rightarrow> 'w state"

text \<open>
  A C function returns a value in a new state, or the process is gone (\<open>abort()\<close>, or a
  call through a null function pointer), or the thread is still in the wait loop of
  \<open>ensure_init\<close> when the fuel is used up.
\<close>

datatype ('a, 'w) outcome =
    Returns 'a "'w state"
  | Aborted "'w state"
  | Segfault "'w state"
  | Spinning "'w state"

definition obind ::
  "('a, 'w) outcome \<Rightarrow> ('a \<Rightarrow> 'w state \<Rightarrow> ('b, 'w) outcome) \<Rightarrow> ('b, 'w) outcome" where
  "obind m f = (case m of
      Returns x s \<Rightarrow> f x s
    | Aborted s \<Rightarrow> Aborted s
    | Segfault s \<Rightarrow> Segfault s
    | Spinning s \<Rightarrow> Spinning s)"

definition log :: "event \<Rightarrow> 'w state \<Rightarrow> 'w state" where
  "log e s = s\<lparr>trace := trace s @ [e]\<rparr>"

text \<open>Statements in sequence; the first one that does not return ends the sequence.\<close>

fun stmts :: "('w state \<Rightarrow> (unit, 'w) outcome) list \<Rightarrow> 'w state \<Rightarrow> (unit, 'w) outcome" where
  "stmts [] s = Returns () s"
| "stmts (f # fs) s = obind (f s) (\<lambda>_. stmts fs)"

subsection \<open>Calls into the backends\<close>

text \<open>\<open>tas_xxx(args)\<close>.\<close>

definition tas :: "'w env \<Rightarrow> int call \<Rightarrow> 'w state \<Rightarrow> (int, 'w) outcome" where
  "tas env c s =
     (case tas_op env c (errno s, world s) of
        (ret, e, w) \<Rightarrow> Returns ret (log (Ev_tas c) s\<lparr>errno := e, world := w\<rparr>))"

text \<open>\<open>libc_xxx(args)\<close>: a call through the function pointer \<open>h\<close>.\<close>

definition via :: "'w env \<Rightarrow> handle \<Rightarrow> int call \<Rightarrow> 'w state \<Rightarrow> (int, 'w) outcome" where
  "via env h c s =
     (if libc s h = NULL then Segfault s
      else case libc_op env (libc s h) c (errno s, world s) of
        (ret, e, w) \<Rightarrow> Returns ret (log (Ev_libc h (libc s h) c) s\<lparr>errno := e, world := w\<rparr>))"

subsection \<open>Helper functions\<close>

text \<open>The line \<open>bind_symbol\<close> writes to \<open>stderr\<close> for a name.\<close>

definition diagnostic :: "string \<Rightarrow> string" where
  "diagnostic symb = ''flextcp socket interpose: dlsym failed ('' @ symb @ '')'' @ [CHR 0x0A]"

text \<open>
  \<open>bind_symbol\<close>: \<open>dlsym(RTLD_NEXT, sym)\<close>; on \<open>NULL\<close> a line on \<open>stderr\<close> and
  \<open>abort()\<close>.
\<close>

definition bind_symbol :: "'w env \<Rightarrow> string \<Rightarrow> 'w state \<Rightarrow> (ptr, 'w) outcome" where
  "bind_symbol env symb s =
     (let ptr = dlsym_next env symb; s = log (Ev_dlsym symb) s in
      if ptr = NULL
      then Aborted (log Ev_abort (log (Ev_fprintf (diagnostic symb)) s))
      else Returns ptr s)"

text \<open>One line \<open>libc_xxx = bind_symbol("xxx");\<close> of \<open>init\<close>.\<close>

definition assign :: "'w env \<Rightarrow> handle \<Rightarrow> string \<Rightarrow> 'w state \<Rightarrow> (unit, 'w) outcome" where
  "assign env h symb s =
     obind (bind_symbol env symb s)
       (\<lambda>ptr s. Returns () (log (Ev_assign h ptr) s\<lparr>libc := (libc s)(h := ptr)\<rparr>))"

text \<open>The last statement of \<open>init\<close>: \<open>if (tas_init() != 0) abort();\<close>\<close>

definition start_tas :: "'w env \<Rightarrow> 'w state \<Rightarrow> (unit, 'w) outcome" where
  "start_tas env s =
     (case tas_init env (errno s, world s) of
        (ret, e, w) \<Rightarrow>
          (let s = log Ev_tas_init s\<lparr>errno := e, world := w\<rparr> in
           if ret \<noteq> 0 then Aborted (log Ev_abort s) else Returns () s))"

definition init :: "'w env \<Rightarrow> 'w state \<Rightarrow> (unit, 'w) outcome" where
  "init env =
     stmts
      [assign env libc_socket ''socket'',
       assign env libc_close ''close'',
       assign env libc_shutdown ''shutdown'',
       assign env libc_bind ''bind'',
       assign env libc_connect ''connect'',
       assign env libc_listen ''listen'',
       assign env libc_accept4 ''accept4'',
       assign env libc_accept ''accept'',
       assign env libc_fcntl ''fcntl'',
       assign env libc_getsockopt ''getsockopt'',
       assign env libc_setsockopt ''setsockopt'',
       assign env libc_getsockname ''getsockname'',
       assign env libc_getpeername ''getpeername'',
       assign env libc_read ''read'',
       assign env libc_recv ''recv'',
       assign env libc_recvfrom ''recvfrom'',
       assign env libc_recvmsg ''recvmsg'',
       assign env libc_write ''write'',
       assign env libc_send ''send'',
       assign env libc_sendto ''sendto'',
       assign env libc_sendmsg ''sendmsg'',
       assign env libc_select ''select'',
       start_tas env]"

text \<open>
  \<open>pthread_yield()\<close>: the other threads run. They may change the shared variables and
  the world, not this thread's \<open>errno\<close>, \<open>in_init\<close> or trace.
\<close>

definition pthread_yield :: "'w env \<Rightarrow> 'w state \<Rightarrow> 'w state" where
  "pthread_yield env s =
     (let s' = others env s in
      log Ev_yield
        (s\<lparr>init_cnt := init_cnt s', init_done := init_done s', libc := libc s',
           world := world s'\<rparr>))"

text \<open>
  \<open>while (init_done == 0) pthread_yield();\<close> with fuel: \<open>n\<close> is the number of times
  the thread is prepared to yield.
\<close>

fun wait_done :: "'w env \<Rightarrow> nat \<Rightarrow> 'w state \<Rightarrow> (unit, 'w) outcome" where
  "wait_done env 0 s = (if init_done s = 0 then Spinning s else Returns () s)"
| "wait_done env (Suc n) s =
     (if init_done s = 0 then wait_done env n (pthread_yield env s) else Returns () s)"

definition ensure_init :: "'w env \<Rightarrow> nat \<Rightarrow> 'w state \<Rightarrow> (unit, 'w) outcome" where
  "ensure_init env n s0 =
     (let s = log Ev_ensure_init s0 in
      if init_done s = 0 then
        if in_init s \<noteq> 0 then Returns () s
        else
          (let old = init_cnt s;
               s = log (Ev_fetch_and_add old) s\<lparr>init_cnt := init_cnt s + 1\<rparr> in
           if old = 0 then
             obind (init env (s\<lparr>in_init := 1\<rparr>))
               (\<lambda>_ s. let s = s\<lparr>in_init := 0\<rparr>;
                           s = log Ev_barrier s in
                       Returns () (log Ev_publish s\<lparr>init_done := 1\<rparr>))
           else
             obind (wait_done env n s)
               (\<lambda>_ s. Returns () (log Ev_barrier s)))
      else Returns () s)"

subsection \<open>The interposed functions\<close>

definition socket :: "'w env \<Rightarrow> nat \<Rightarrow> int \<Rightarrow> int \<Rightarrow> int \<Rightarrow> 'w state \<Rightarrow> (int, 'w) outcome" where
  "socket env n domain type protocol s =
     obind (ensure_init env n s) (\<lambda>_ s.
       if domain \<noteq> AF_INET env \<or> type \<noteq> SOCK_STREAM env
       then via env libc_socket (Socket domain type protocol) s
       else tas env (Socket domain type protocol) s)"

definition close :: "'w env \<Rightarrow> nat \<Rightarrow> int \<Rightarrow> 'w state \<Rightarrow> (int, 'w) outcome" where
  "close env n sockfd s =
     obind (ensure_init env n s) (\<lambda>_ s.
       obind (tas env (Close sockfd) s) (\<lambda>ret s.
         if ret = - 1 \<and> errno s = EBADF env
         then via env libc_close (Close sockfd) s
         else Returns ret s))"

definition shutdown :: "'w env \<Rightarrow> nat \<Rightarrow> int \<Rightarrow> int \<Rightarrow> 'w state \<Rightarrow> (int, 'w) outcome" where
  "shutdown env n sockfd how s =
     obind (ensure_init env n s) (\<lambda>_ s.
       obind (tas env (Shutdown sockfd how) s) (\<lambda>ret s.
         if ret = - 1 \<and> errno s = EBADF env
         then via env libc_shutdown (Shutdown sockfd how) s
         else Returns ret s))"

definition bind :: "'w env \<Rightarrow> nat \<Rightarrow> int \<Rightarrow> ptr \<Rightarrow> int \<Rightarrow> 'w state \<Rightarrow> (int, 'w) outcome" where
  "bind env n sockfd addr addrlen s =
     obind (ensure_init env n s) (\<lambda>_ s.
       obind (tas env (Bind sockfd addr addrlen) s) (\<lambda>ret s.
         if ret = - 1 \<and> errno s = EBADF env
         then via env libc_bind (Bind sockfd addr addrlen) s
         else Returns ret s))"

definition connect :: "'w env \<Rightarrow> nat \<Rightarrow> int \<Rightarrow> ptr \<Rightarrow> int \<Rightarrow> 'w state \<Rightarrow> (int, 'w) outcome" where
  "connect env n sockfd addr addrlen s =
     obind (ensure_init env n s) (\<lambda>_ s.
       obind (tas env (Connect sockfd addr addrlen) s) (\<lambda>ret s.
         if ret = - 1 \<and> errno s = EBADF env
         then via env libc_connect (Connect sockfd addr addrlen) s
         else Returns ret s))"

definition listen :: "'w env \<Rightarrow> nat \<Rightarrow> int \<Rightarrow> int \<Rightarrow> 'w state \<Rightarrow> (int, 'w) outcome" where
  "listen env n sockfd backlog s =
     obind (ensure_init env n s) (\<lambda>_ s.
       obind (tas env (Listen sockfd backlog) s) (\<lambda>ret s.
         if ret = - 1 \<and> errno s = EBADF env
         then via env libc_listen (Listen sockfd backlog) s
         else Returns ret s))"

definition accept4 :: "'w env \<Rightarrow> nat \<Rightarrow> int \<Rightarrow> ptr \<Rightarrow> ptr \<Rightarrow> int \<Rightarrow> 'w state \<Rightarrow> (int, 'w) outcome" where
  "accept4 env n sockfd addr addrlen flags s =
     obind (ensure_init env n s) (\<lambda>_ s.
       obind (tas env (Accept4 sockfd addr addrlen flags) s) (\<lambda>ret s.
         if ret = - 1 \<and> errno s = EBADF env
         then via env libc_accept4 (Accept4 sockfd addr addrlen flags) s
         else Returns ret s))"

definition accept :: "'w env \<Rightarrow> nat \<Rightarrow> int \<Rightarrow> ptr \<Rightarrow> ptr \<Rightarrow> 'w state \<Rightarrow> (int, 'w) outcome" where
  "accept env n sockfd addr addrlen s =
     obind (ensure_init env n s) (\<lambda>_ s.
       obind (tas env (Accept sockfd addr addrlen) s) (\<lambda>ret s.
         if ret = - 1 \<and> errno s = EBADF env
         then via env libc_accept (Accept sockfd addr addrlen) s
         else Returns ret s))"

text \<open>
  \<open>va_arg(val, int)\<close> right after \<open>va_start\<close>: the low 32 bits of the first variadic
  slot, read as a signed \<open>int\<close>. With no variadic argument the slot holds what the
  caller left there.
\<close>

definition va_arg_int :: "'w env \<Rightarrow> va_list \<Rightarrow> int" where
  "va_arg_int env val =
     sint (ucast (case val of [] \<Rightarrow> va_residue env | slot # _ \<Rightarrow> slot) :: 32 word)"

definition fcntl :: "'w env \<Rightarrow> nat \<Rightarrow> int \<Rightarrow> int \<Rightarrow> va_list \<Rightarrow> 'w state \<Rightarrow> (int, 'w) outcome" where
  "fcntl env n sockfd cmd val s =
     obind (ensure_init env n s) (\<lambda>_ s.
       let arg = va_arg_int env val in
       obind (tas env (Fcntl sockfd cmd arg) s) (\<lambda>ret s.
         if ret = - 1 \<and> errno s = EBADF env
         then via env libc_fcntl (Fcntl sockfd cmd arg) s
         else Returns ret s))"

definition getsockopt :: "'w env \<Rightarrow> nat \<Rightarrow> int \<Rightarrow> int \<Rightarrow> int \<Rightarrow> ptr \<Rightarrow> ptr \<Rightarrow> 'w state \<Rightarrow> (int, 'w) outcome" where
  "getsockopt env n sockfd level optname optval optlen s =
     obind (ensure_init env n s) (\<lambda>_ s.
       obind (tas env (Getsockopt sockfd level optname optval optlen) s) (\<lambda>ret s.
         if ret = - 1 \<and> errno s = EBADF env
         then via env libc_getsockopt (Getsockopt sockfd level optname optval optlen) s
         else Returns ret s))"

definition setsockopt :: "'w env \<Rightarrow> nat \<Rightarrow> int \<Rightarrow> int \<Rightarrow> int \<Rightarrow> ptr \<Rightarrow> int \<Rightarrow> 'w state \<Rightarrow> (int, 'w) outcome" where
  "setsockopt env n sockfd level optname optval optlen s =
     obind (ensure_init env n s) (\<lambda>_ s.
       obind (tas env (Setsockopt sockfd level optname optval optlen) s) (\<lambda>ret s.
         if ret = - 1 \<and> errno s = EBADF env
         then via env libc_setsockopt (Setsockopt sockfd level optname optval optlen) s
         else Returns ret s))"

definition getsockname :: "'w env \<Rightarrow> nat \<Rightarrow> int \<Rightarrow> ptr \<Rightarrow> ptr \<Rightarrow> 'w state \<Rightarrow> (int, 'w) outcome" where
  "getsockname env n sockfd addr addrlen s =
     obind (ensure_init env n s) (\<lambda>_ s.
       obind (tas env (Getsockname sockfd addr addrlen) s) (\<lambda>ret s.
         if ret = - 1 \<and> errno s = EBADF env
         then via env libc_getsockname (Getsockname sockfd addr addrlen) s
         else Returns ret s))"

definition getpeername :: "'w env \<Rightarrow> nat \<Rightarrow> int \<Rightarrow> ptr \<Rightarrow> ptr \<Rightarrow> 'w state \<Rightarrow> (int, 'w) outcome" where
  "getpeername env n sockfd addr addrlen s =
     obind (ensure_init env n s) (\<lambda>_ s.
       obind (tas env (Getpeername sockfd addr addrlen) s) (\<lambda>ret s.
         if ret = - 1 \<and> errno s = EBADF env
         then via env libc_getpeername (Getpeername sockfd addr addrlen) s
         else Returns ret s))"

definition read :: "'w env \<Rightarrow> nat \<Rightarrow> int \<Rightarrow> ptr \<Rightarrow> int \<Rightarrow> 'w state \<Rightarrow> (int, 'w) outcome" where
  "read env n sockfd buf count s =
     obind (ensure_init env n s) (\<lambda>_ s.
       obind (tas env (Read sockfd buf count) s) (\<lambda>ret s.
         if ret = - 1 \<and> errno s = EBADF env
         then via env libc_read (Read sockfd buf count) s
         else Returns ret s))"

definition recv :: "'w env \<Rightarrow> nat \<Rightarrow> int \<Rightarrow> ptr \<Rightarrow> int \<Rightarrow> int \<Rightarrow> 'w state \<Rightarrow> (int, 'w) outcome" where
  "recv env n sockfd buf len flags s =
     obind (ensure_init env n s) (\<lambda>_ s.
       obind (tas env (Recv sockfd buf len flags) s) (\<lambda>ret s.
         if ret = - 1 \<and> errno s = EBADF env
         then via env libc_recv (Recv sockfd buf len flags) s
         else Returns ret s))"

definition recvfrom :: "'w env \<Rightarrow> nat \<Rightarrow> int \<Rightarrow> ptr \<Rightarrow> int \<Rightarrow> int \<Rightarrow> ptr \<Rightarrow> ptr \<Rightarrow> 'w state \<Rightarrow> (int, 'w) outcome" where
  "recvfrom env n sockfd buf len flags src_addr addrlen s =
     obind (ensure_init env n s) (\<lambda>_ s.
       obind (tas env (Recvfrom sockfd buf len flags src_addr addrlen) s) (\<lambda>ret s.
         if ret = - 1 \<and> errno s = EBADF env
         then via env libc_recvfrom (Recvfrom sockfd buf len flags src_addr addrlen) s
         else Returns ret s))"

definition recvmsg :: "'w env \<Rightarrow> nat \<Rightarrow> int \<Rightarrow> ptr \<Rightarrow> int \<Rightarrow> 'w state \<Rightarrow> (int, 'w) outcome" where
  "recvmsg env n sockfd msg flags s =
     obind (ensure_init env n s) (\<lambda>_ s.
       obind (tas env (Recvmsg sockfd msg flags) s) (\<lambda>ret s.
         if ret = - 1 \<and> errno s = EBADF env
         then via env libc_recvmsg (Recvmsg sockfd msg flags) s
         else Returns ret s))"

text \<open>\<open>write\<close>; the name alone is a keyword of Isabelle.\<close>

definition write_fd :: "'w env \<Rightarrow> nat \<Rightarrow> int \<Rightarrow> ptr \<Rightarrow> int \<Rightarrow> 'w state \<Rightarrow> (int, 'w) outcome" where
  "write_fd env n sockfd buf count s =
     obind (ensure_init env n s) (\<lambda>_ s.
       obind (tas env (Write sockfd buf count) s) (\<lambda>ret s.
         if ret = - 1 \<and> errno s = EBADF env
         then via env libc_write (Write sockfd buf count) s
         else Returns ret s))"

definition send :: "'w env \<Rightarrow> nat \<Rightarrow> int \<Rightarrow> ptr \<Rightarrow> int \<Rightarrow> int \<Rightarrow> 'w state \<Rightarrow> (int, 'w) outcome" where
  "send env n sockfd buf len flags s =
     obind (ensure_init env n s) (\<lambda>_ s.
       obind (tas env (Send sockfd buf len flags) s) (\<lambda>ret s.
         if ret = - 1 \<and> errno s = EBADF env
         then via env libc_send (Send sockfd buf len flags) s
         else Returns ret s))"

definition sendto :: "'w env \<Rightarrow> nat \<Rightarrow> int \<Rightarrow> ptr \<Rightarrow> int \<Rightarrow> int \<Rightarrow> ptr \<Rightarrow> int \<Rightarrow> 'w state \<Rightarrow> (int, 'w) outcome" where
  "sendto env n sockfd buf len flags dest_addr addrlen s =
     obind (ensure_init env n s) (\<lambda>_ s.
       obind (tas env (Sendto sockfd buf len flags dest_addr addrlen) s) (\<lambda>ret s.
         if ret = - 1 \<and> errno s = EBADF env
         then via env libc_sendto (Sendto sockfd buf len flags dest_addr addrlen) s
         else Returns ret s))"

definition sendmsg :: "'w env \<Rightarrow> nat \<Rightarrow> int \<Rightarrow> ptr \<Rightarrow> int \<Rightarrow> 'w state \<Rightarrow> (int, 'w) outcome" where
  "sendmsg env n sockfd msg flags s =
     obind (ensure_init env n s) (\<lambda>_ s.
       obind (tas env (Sendmsg sockfd msg flags) s) (\<lambda>ret s.
         if ret = - 1 \<and> errno s = EBADF env
         then via env libc_sendmsg (Sendmsg sockfd msg flags) s
         else Returns ret s))"

definition select :: "'w env \<Rightarrow> int \<Rightarrow> ptr \<Rightarrow> ptr \<Rightarrow> ptr \<Rightarrow> ptr \<Rightarrow> 'w state \<Rightarrow> (int, 'w) outcome" where
  "select env nfds readfds writefds exceptfds timeout s = tas env (Select nfds readfds writefds exceptfds timeout) s"

definition epoll_create :: "'w env \<Rightarrow> int \<Rightarrow> 'w state \<Rightarrow> (int, 'w) outcome" where
  "epoll_create env sz s = tas env (Epoll_create sz) s"

definition epoll_create1 :: "'w env \<Rightarrow> int \<Rightarrow> 'w state \<Rightarrow> (int, 'w) outcome" where
  "epoll_create1 env flags s = tas env (Epoll_create1 flags) s"

definition epoll_ctl :: "'w env \<Rightarrow> int \<Rightarrow> int \<Rightarrow> int \<Rightarrow> ptr \<Rightarrow> 'w state \<Rightarrow> (int, 'w) outcome" where
  "epoll_ctl env epfd op fd event s = tas env (Epoll_ctl epfd op fd event) s"

definition epoll_wait :: "'w env \<Rightarrow> int \<Rightarrow> ptr \<Rightarrow> int \<Rightarrow> int \<Rightarrow> 'w state \<Rightarrow> (int, 'w) outcome" where
  "epoll_wait env epfd events maxevents timeout s = tas env (Epoll_wait epfd events maxevents timeout) s"

definition epoll_pwait :: "'w env \<Rightarrow> int \<Rightarrow> ptr \<Rightarrow> int \<Rightarrow> int \<Rightarrow> ptr \<Rightarrow> 'w state \<Rightarrow> (int, 'w) outcome" where
  "epoll_pwait env epfd events maxevents timeout sigmask s = tas env (Epoll_pwait epfd events maxevents timeout sigmask) s"

subsection \<open>A call from the application\<close>

text \<open>
  The dynamic linker resolves a call of the application by name to the function of this
  file with that name.
\<close>

fun interpose :: "'w env \<Rightarrow> nat \<Rightarrow> va_list call \<Rightarrow> 'w state \<Rightarrow> (int, 'w) outcome" where
  "interpose env n (Socket domain type protocol) = socket env n domain type protocol"
| "interpose env n (Close sockfd) = close env n sockfd"
| "interpose env n (Shutdown sockfd how) = shutdown env n sockfd how"
| "interpose env n (Bind sockfd addr addrlen) = bind env n sockfd addr addrlen"
| "interpose env n (Connect sockfd addr addrlen) = connect env n sockfd addr addrlen"
| "interpose env n (Listen sockfd backlog) = listen env n sockfd backlog"
| "interpose env n (Accept4 sockfd addr addrlen flags) = accept4 env n sockfd addr addrlen flags"
| "interpose env n (Accept sockfd addr addrlen) = accept env n sockfd addr addrlen"
| "interpose env n (Fcntl sockfd cmd val) = fcntl env n sockfd cmd val"
| "interpose env n (Getsockopt sockfd level optname optval optlen) =
     getsockopt env n sockfd level optname optval optlen"
| "interpose env n (Setsockopt sockfd level optname optval optlen) =
     setsockopt env n sockfd level optname optval optlen"
| "interpose env n (Getsockname sockfd addr addrlen) = getsockname env n sockfd addr addrlen"
| "interpose env n (Getpeername sockfd addr addrlen) = getpeername env n sockfd addr addrlen"
| "interpose env n (Read sockfd buf count) = read env n sockfd buf count"
| "interpose env n (Recv sockfd buf len flags) = recv env n sockfd buf len flags"
| "interpose env n (Recvfrom sockfd buf len flags src_addr addrlen) =
     recvfrom env n sockfd buf len flags src_addr addrlen"
| "interpose env n (Recvmsg sockfd msg flags) = recvmsg env n sockfd msg flags"
| "interpose env n (Write sockfd buf count) = write_fd env n sockfd buf count"
| "interpose env n (Send sockfd buf len flags) = send env n sockfd buf len flags"
| "interpose env n (Sendto sockfd buf len flags dest_addr addrlen) =
     sendto env n sockfd buf len flags dest_addr addrlen"
| "interpose env n (Sendmsg sockfd msg flags) = sendmsg env n sockfd msg flags"
| "interpose env n (Select nfds readfds writefds exceptfds timeout) =
     select env nfds readfds writefds exceptfds timeout"
| "interpose env n (Epoll_create sz) = epoll_create env sz"
| "interpose env n (Epoll_create1 flags) = epoll_create1 env flags"
| "interpose env n (Epoll_ctl epfd op fd event) = epoll_ctl env epfd op fd event"
| "interpose env n (Epoll_wait epfd events maxevents timeout) =
     epoll_wait env epfd events maxevents timeout"
| "interpose env n (Epoll_pwait epfd events maxevents timeout sigmask) =
     epoll_pwait env epfd events maxevents timeout sigmask"

subsection \<open>The vocabulary of the specification\<close>

text \<open>
  The call a backend receives for a call of the application: the same operation with the
  same arguments, except for \<open>fcntl\<close>, whose variadic part reaches the backend as
  the one \<open>int\<close> that \<open>va_arg\<close> reads.
\<close>

definition forwarded :: "'w env \<Rightarrow> va_list call \<Rightarrow> int call" where
  "forwarded env a = map_call (va_arg_int env) a"

text \<open>
  Identical arguments: the backend's call is the same operation with the same arguments
  as the application's, and for \<open>fcntl\<close> its third argument is the one variadic
  argument of the application, whole.
\<close>

definition passed_whole :: "va_list \<Rightarrow> int \<Rightarrow> bool" where
  "passed_whole val arg = (val = [word_of_int arg])"

definition identical :: "va_list call \<Rightarrow> int call \<Rightarrow> bool" where
  "identical a c = rel_call passed_whole a c"

text \<open>
  The fallback family with the native function of each member; the creation call and
  the readiness-multiplexing family are not in it.
\<close>

fun native_of :: "'a call \<Rightarrow> handle option" where
  "native_of (Close _) = Some libc_close"
| "native_of (Shutdown _ _) = Some libc_shutdown"
| "native_of (Bind _ _ _) = Some libc_bind"
| "native_of (Connect _ _ _) = Some libc_connect"
| "native_of (Listen _ _) = Some libc_listen"
| "native_of (Accept4 _ _ _ _) = Some libc_accept4"
| "native_of (Accept _ _ _) = Some libc_accept"
| "native_of (Fcntl _ _ _) = Some libc_fcntl"
| "native_of (Getsockopt _ _ _ _ _) = Some libc_getsockopt"
| "native_of (Setsockopt _ _ _ _ _) = Some libc_setsockopt"
| "native_of (Getsockname _ _ _) = Some libc_getsockname"
| "native_of (Getpeername _ _ _) = Some libc_getpeername"
| "native_of (Read _ _ _) = Some libc_read"
| "native_of (Recv _ _ _ _) = Some libc_recv"
| "native_of (Recvfrom _ _ _ _ _ _) = Some libc_recvfrom"
| "native_of (Recvmsg _ _ _) = Some libc_recvmsg"
| "native_of (Write _ _ _) = Some libc_write"
| "native_of (Send _ _ _ _) = Some libc_send"
| "native_of (Sendto _ _ _ _ _ _) = Some libc_sendto"
| "native_of (Sendmsg _ _ _) = Some libc_sendmsg"
| "native_of _ = None"

fun multiplexing :: "'a call \<Rightarrow> bool" where
  "multiplexing (Select _ _ _ _ _) = True"
| "multiplexing (Epoll_create _) = True"
| "multiplexing (Epoll_create1 _) = True"
| "multiplexing (Epoll_ctl _ _ _ _) = True"
| "multiplexing (Epoll_wait _ _ _ _) = True"
| "multiplexing (Epoll_pwait _ _ _ _ _) = True"
| "multiplexing _ = False"

text \<open>The state an outcome ends in, and what a call has added to the trace.\<close>

fun final :: "('a, 'w) outcome \<Rightarrow> 'w state" where
  "final (Returns _ s) = s"
| "final (Aborted s) = s"
| "final (Segfault s) = s"
| "final (Spinning s) = s"

definition added :: "'w state \<Rightarrow> ('a, 'w) outcome \<Rightarrow> event list" where
  "added s out = drop (length (trace s)) (trace (final out))"

text \<open>The table of \<open>init\<close>: each function pointer with the name it is resolved from.\<close>

definition symbols :: "(handle \<times> string) list" where
  "symbols =
     [(libc_socket, ''socket''), (libc_close, ''close''), (libc_shutdown, ''shutdown''),
      (libc_bind, ''bind''), (libc_connect, ''connect''), (libc_listen, ''listen''),
      (libc_accept4, ''accept4''), (libc_accept, ''accept''), (libc_fcntl, ''fcntl''),
      (libc_getsockopt, ''getsockopt''), (libc_setsockopt, ''setsockopt''),
      (libc_getsockname, ''getsockname''), (libc_getpeername, ''getpeername''),
      (libc_read, ''read''), (libc_recv, ''recv''), (libc_recvfrom, ''recvfrom''),
      (libc_recvmsg, ''recvmsg''), (libc_write, ''write''), (libc_send, ''send''),
      (libc_sendto, ''sendto''), (libc_sendmsg, ''sendmsg''), (libc_select, ''select'')]"

text \<open>What resolving a part of the table leaves in the trace and in the table.\<close>

definition resolved_events :: "'w env \<Rightarrow> (handle \<times> string) list \<Rightarrow> event list" where
  "resolved_events env hs =
     concat (map (\<lambda>(h, symb). [Ev_dlsym symb, Ev_assign h (dlsym_next env symb)]) hs)"

definition resolved_table ::
  "'w env \<Rightarrow> (handle \<times> string) list \<Rightarrow> (handle \<Rightarrow> ptr) \<Rightarrow> (handle \<Rightarrow> ptr)" where
  "resolved_table env hs tab = foldl (\<lambda>f (h, symb). f(h := dlsym_next env symb)) tab hs"

fun is_aborted :: "('a, 'w) outcome \<Rightarrow> bool" where
  "is_aborted (Aborted _) = True"
| "is_aborted _ = False"

fun is_fprintf :: "event \<Rightarrow> bool" where
  "is_fprintf (Ev_fprintf _) = True"
| "is_fprintf _ = False"

subsection \<open>Sample environments and states\<close>

text \<open>
  A TAS that owns no descriptor and answers every call with \<open>-1\<close> and \<open>EBADF\<close>,
  over a libc that answers \<open>0\<close>; the world counts the calls (1 for TAS, 100 for libc).
  The constants are those of Linux.
\<close>

definition stranger :: "nat env" where
  "stranger = \<lparr>AF_INET = 2, SOCK_STREAM = 1, EBADF = 9,
     dlsym_next = (\<lambda>symb. 0x7F00),
     tas_init = (\<lambda>(e, w). (0, e, w)),
     tas_op = (\<lambda>c (e, w). (- 1, 9, w + 1)),
     libc_op = (\<lambda>p c (e, w). (0, e, w + 100)),
     va_residue = 0xDEADBEEF00000007,
     others = (\<lambda>s. s)\<rparr>"

text \<open>The same with a TAS whose \<open>tas_init\<close> fails.\<close>

definition failing_start :: "nat env" where
  "failing_start = stranger\<lparr>tas_init := (\<lambda>(e, w). (- 1, e, w))\<rparr>"

text \<open>The same with a libc that has no \<open>accept4\<close>.\<close>

definition no_accept4 :: "nat env" where
  "no_accept4 = stranger\<lparr>dlsym_next := (\<lambda>symb. if symb = ''accept4'' then NULL else 0x7F00)\<rparr>"

text \<open>The state of a thread before the first call, after initialization, and inside it.\<close>

definition fresh :: "nat state" where
  "fresh = \<lparr>errno = 0, init_cnt = 0, init_done = 0, in_init = 0, libc = (\<lambda>h. NULL),
     world = 0, trace = []\<rparr>"

definition ready :: "nat state" where
  "ready = \<lparr>errno = 0, init_cnt = 1, init_done = 1, in_init = 0, libc = (\<lambda>h. 0x7F00),
     world = 0, trace = []\<rparr>"

definition starting :: "nat state" where
  "starting = \<lparr>errno = 0, init_cnt = 1, init_done = 0, in_init = 1, libc = (\<lambda>h. 0x7F00),
     world = 0, trace = []\<rparr>"

subsection \<open>Several threads in \<open>ensure_init\<close>\<close>

text \<open>
  The threads of the process run \<open>ensure_init\<close> interleaved. A step is one access to
  a variable that the threads share, with the thread's own work up to the next one: the
  test of \<open>init_done\<close>, the fetch-and-add, one line of \<open>init\<close>, the barrier, the
  store to \<open>init_done\<close>. The steps of all threads happen in one order, and a store is
  seen by every later load; what the barriers are for on weaker memory is outside this
  model, which only records where they stand. Calls that \<open>tas_init\<close> makes back into
  this file find \<open>in_init\<close> set and return from \<open>ensure_init\<close> with nothing changed,
  so they are not steps here.
\<close>

type_synonym tid = nat

text \<open>Where a thread stands, by the line of the source it is about to execute.\<close>

datatype pc =
    At_check_done
  | At_check_in_init
  | At_fetch_and_add
  | At_set_in_init
  | At_bind nat
  | At_tas_init
  | At_clear_in_init
  | At_barrier
  | At_publish
  | At_wait
  | At_yield
  | At_wait_barrier
  | At_return

text \<open>
  The process: the shared statics and the table (\<open>g_\<close>), and for each thread its
  place, its thread-local variables and its own trace (\<open>t_\<close>). After \<open>abort()\<close>
  nothing runs.
\<close>

record 'w process =
  g_init_cnt :: "32 word"
  g_init_done :: "8 word"
  g_libc :: "handle \<Rightarrow> ptr"
  g_world :: 'w
  aborted :: bool
  t_pc :: "tid \<Rightarrow> pc"
  t_in_init :: "tid \<Rightarrow> 8 word"
  t_errno :: "tid \<Rightarrow> int"
  t_trace :: "tid \<Rightarrow> event list"

definition goto :: "tid \<Rightarrow> pc \<Rightarrow> 'w process \<Rightarrow> 'w process" where
  "goto t l p = p\<lparr>t_pc := (t_pc p)(t := l)\<rparr>"

definition emit :: "tid \<Rightarrow> event list \<Rightarrow> 'w process \<Rightarrow> 'w process" where
  "emit t es p = p\<lparr>t_trace := (t_trace p)(t := t_trace p t @ es)\<rparr>"

text \<open>One step of thread \<open>t\<close>.\<close>

definition step :: "'w env \<Rightarrow> tid \<Rightarrow> 'w process \<Rightarrow> 'w process" where
  "step env t p =
     (if aborted p then p
      else case t_pc p t of
        At_check_done \<Rightarrow>
          goto t (if g_init_done p = 0 then At_check_in_init else At_return)
            (emit t [Ev_ensure_init] p)
      | At_check_in_init \<Rightarrow>
          goto t (if t_in_init p t \<noteq> 0 then At_return else At_fetch_and_add) p
      | At_fetch_and_add \<Rightarrow>
          (let old = g_init_cnt p in
           goto t (if old = 0 then At_set_in_init else At_wait)
             (emit t [Ev_fetch_and_add old] (p\<lparr>g_init_cnt := old + 1\<rparr>)))
      | At_set_in_init \<Rightarrow>
          goto t (At_bind 0) (p\<lparr>t_in_init := (t_in_init p)(t := 1)\<rparr>)
      | At_bind k \<Rightarrow>
          (if k < length symbols then
             (case symbols ! k of (h, symb) \<Rightarrow>
                let ptr = dlsym_next env symb in
                if ptr = NULL
                then emit t [Ev_dlsym symb, Ev_fprintf (diagnostic symb), Ev_abort]
                       (p\<lparr>aborted := True\<rparr>)
                else goto t (if Suc k < length symbols then At_bind (Suc k) else At_tas_init)
                       (emit t [Ev_dlsym symb, Ev_assign h ptr]
                          (p\<lparr>g_libc := (g_libc p)(h := ptr)\<rparr>)))
           else goto t At_tas_init p)
      | At_tas_init \<Rightarrow>
          (case tas_init env (t_errno p t, g_world p) of
             (ret, e, w) \<Rightarrow>
               let p = p\<lparr>g_world := w, t_errno := (t_errno p)(t := e)\<rparr> in
               if ret \<noteq> 0
               then emit t [Ev_tas_init, Ev_abort] (p\<lparr>aborted := True\<rparr>)
               else goto t At_clear_in_init (emit t [Ev_tas_init] p))
      | At_clear_in_init \<Rightarrow>
          goto t At_barrier (p\<lparr>t_in_init := (t_in_init p)(t := 0)\<rparr>)
      | At_barrier \<Rightarrow>
          goto t At_publish (emit t [Ev_barrier] p)
      | At_publish \<Rightarrow>
          goto t At_return (emit t [Ev_publish] (p\<lparr>g_init_done := 1\<rparr>))
      | At_wait \<Rightarrow>
          goto t (if g_init_done p = 0 then At_yield else At_wait_barrier) p
      | At_yield \<Rightarrow>
          goto t At_wait (emit t [Ev_yield] p)
      | At_wait_barrier \<Rightarrow>
          goto t At_return (emit t [Ev_barrier] p)
      | At_return \<Rightarrow>
          goto t At_check_done p)"

text \<open>
  A schedule names the thread that takes each step. A thread that has returned from
  \<open>ensure_init\<close> enters it again with its next step, for its next interposed call.
\<close>

fun run :: "'w env \<Rightarrow> tid list \<Rightarrow> 'w process \<Rightarrow> 'w process" where
  "run env [] p = p"
| "run env (t # ts) p = run env ts (step env t p)"

text \<open>The process before the first interposed call.\<close>

definition boot :: "'w \<Rightarrow> 'w process" where
  "boot w = \<lparr>g_init_cnt = 0, g_init_done = 0, g_libc = (\<lambda>h. NULL), g_world = w,
     aborted = False, t_pc = (\<lambda>t. At_check_done), t_in_init = (\<lambda>t. 0),
     t_errno = (\<lambda>t. 0), t_trace = (\<lambda>t. [])\<rparr>"

text \<open>
  The threads that have done the fetch-and-add, the thread that saw the counter at zero,
  and what a thread has done apart from entering \<open>ensure_init\<close>.
\<close>

fun is_fetch_and_add :: "event \<Rightarrow> bool" where
  "is_fetch_and_add (Ev_fetch_and_add _) = True"
| "is_fetch_and_add _ = False"

definition ticketed :: "'w process \<Rightarrow> tid set" where
  "ticketed p = {t. \<exists>e \<in> set (t_trace p t). is_fetch_and_add e}"

definition initializer :: "'w process \<Rightarrow> tid \<Rightarrow> bool" where
  "initializer p t = (Ev_fetch_and_add 0 \<in> set (t_trace p t))"

definition work :: "'w process \<Rightarrow> tid \<Rightarrow> event list" where
  "work p t = filter (\<lambda>e. e \<noteq> Ev_ensure_init) (t_trace p t)"

text \<open>The events of \<open>init\<close> and of the store to \<open>init_done\<close>.\<close>

fun is_init_event :: "event \<Rightarrow> bool" where
  "is_init_event (Ev_dlsym _) = True"
| "is_init_event (Ev_assign _ _) = True"
| "is_init_event (Ev_fprintf _) = True"
| "is_init_event Ev_abort = True"
| "is_init_event Ev_tas_init = True"
| "is_init_event Ev_publish = True"
| "is_init_event _ = False"

text \<open>What a complete initialization leaves in the trace of the thread that ran it.\<close>

definition initialization :: "'w env \<Rightarrow> event list" where
  "initialization env =
     Ev_fetch_and_add 0 # resolved_events env symbols @ [Ev_tas_init, Ev_barrier, Ev_publish]"

text \<open>
  The invariant of the interleaving. For the thread that saw the counter at zero: how
  many lines of \<open>init\<close> are behind it, and what it has done by then.
\<close>

fun bound :: "pc \<Rightarrow> nat" where
  "bound At_set_in_init = 0"
| "bound (At_bind k) = k"
| "bound _ = length symbols"

fun progress :: "'w env \<Rightarrow> pc \<Rightarrow> event list" where
  "progress env At_set_in_init = []"
| "progress env (At_bind k) = resolved_events env (take k symbols)"
| "progress env At_tas_init = resolved_events env symbols"
| "progress env At_clear_in_init = resolved_events env symbols @ [Ev_tas_init]"
| "progress env At_barrier = resolved_events env symbols @ [Ev_tas_init]"
| "progress env At_publish = resolved_events env symbols @ [Ev_tas_init, Ev_barrier]"
| "progress env _ = resolved_events env symbols @ [Ev_tas_init, Ev_barrier, Ev_publish]"

definition thread_inv :: "'w env \<Rightarrow> 'w process \<Rightarrow> tid \<Rightarrow> bool" where
  "thread_inv env p t =
     ((case t_pc p t of
         At_check_done \<Rightarrow> t_in_init p t = 0 \<and> (t \<in> ticketed p \<longrightarrow> g_init_done p \<noteq> 0)
       | At_check_in_init \<Rightarrow> t_in_init p t = 0 \<and> t \<notin> ticketed p
       | At_fetch_and_add \<Rightarrow> t_in_init p t = 0 \<and> t \<notin> ticketed p
       | At_set_in_init \<Rightarrow> t_in_init p t = 0 \<and> initializer p t \<and> g_init_done p = 0
       | At_bind k \<Rightarrow>
           t_in_init p t = 1 \<and> initializer p t \<and> g_init_done p = 0 \<and> k < length symbols
       | At_tas_init \<Rightarrow> t_in_init p t = 1 \<and> initializer p t \<and> g_init_done p = 0
       | At_clear_in_init \<Rightarrow> t_in_init p t = 1 \<and> initializer p t \<and> g_init_done p = 0
       | At_barrier \<Rightarrow> t_in_init p t = 0 \<and> initializer p t \<and> g_init_done p = 0
       | At_publish \<Rightarrow> t_in_init p t = 0 \<and> initializer p t \<and> g_init_done p = 0
       | At_wait \<Rightarrow> t_in_init p t = 0 \<and> t \<in> ticketed p \<and> \<not> initializer p t
       | At_yield \<Rightarrow> t_in_init p t = 0 \<and> t \<in> ticketed p \<and> \<not> initializer p t
       | At_wait_barrier \<Rightarrow>
           t_in_init p t = 0 \<and> t \<in> ticketed p \<and> \<not> initializer p t \<and> g_init_done p \<noteq> 0
       | At_return \<Rightarrow> t_in_init p t = 0 \<and> g_init_done p \<noteq> 0) \<and>
      (if initializer p t
       then g_libc p = resolved_table env (take (bound (t_pc p t)) symbols) (\<lambda>h. NULL) \<and>
            (\<forall>(h, symb) \<in> set (take (bound (t_pc p t)) symbols). dlsym_next env symb \<noteq> NULL) \<and>
            (aborted p \<or> work p t = Ev_fetch_and_add 0 # progress env (t_pc p t))
       else (\<forall>e \<in> set (t_trace p t). \<not> is_init_event e) \<and>
            (t \<notin> ticketed p \<longrightarrow> work p t = [])))"

definition process_inv :: "'w env \<Rightarrow> tid set \<Rightarrow> 'w process \<Rightarrow> bool" where
  "process_inv env T p =
     (finite T \<and> card T < 2 ^ 32 \<and> ticketed p \<subseteq> T \<and>
      g_init_cnt p = of_nat (card (ticketed p)) \<and>
      (\<forall>t t'. initializer p t \<and> initializer p t' \<longrightarrow> t = t') \<and>
      (ticketed p \<noteq> {} \<longrightarrow> (\<exists>t. initializer p t)) \<and>
      ((\<forall>t. \<not> initializer p t) \<longrightarrow> g_libc p = (\<lambda>h. NULL)) \<and>
      (aborted p \<longrightarrow> g_init_done p = 0) \<and>
      (g_init_done p \<noteq> 0 \<longrightarrow> (\<exists>t. initializer p t)) \<and>
      (\<forall>t. thread_inv env p t))"

text \<open>
  A sample schedule: threads 0 and 1 enter together, thread 0 wins the counter and runs
  the 27 steps of the initialization while thread 1 waits; then both return, and thread 1
  makes a further call.
\<close>

definition two_threads :: "tid list" where
  "two_threads =
     [0, 1, 0, 1, 0, 1, 1, 1,
      0, 0, 0, 0, 0, 0, 0, 0, 0, 0, 0, 0, 0, 0, 0, 0, 0, 0, 0, 0, 0, 0, 0, 0, 0, 0, 0,
      1, 1, 1, 0, 1]"

text \<open>A schedule of one thread alone, and the state of a thread before the first call.\<close>

definition solo :: "tid \<Rightarrow> tid list" where
  "solo t = [t, t, t, t, t, t, t, t, t, t, t, t, t, t, t, t, t, t, t, t, t, t, t, t, t, t, t, t, t, t]"

definition starts :: "'w \<Rightarrow> 'w state" where
  "starts w = \<lparr>errno = 0, init_cnt = 0, init_done = 0, in_init = 0, libc = (\<lambda>h. NULL),
     world = w, trace = []\<rparr>"

section \<open>Properties of the dispatchers\<close>

subsection \<open>Auxiliary facts\<close>

lemma log_simps [simp]:
  "errno (log e s) = errno s" "init_cnt (log e s) = init_cnt s"
  "init_done (log e s) = init_done s" "in_init (log e s) = in_init s"
  "libc (log e s) = libc s" "world (log e s) = world s"
  "trace (log e s) = trace s @ [e]"
  by (simp_all add: log_def)

lemmas fallback_defs =
  close_def shutdown_def bind_def connect_def listen_def accept4_def accept_def fcntl_def
  getsockopt_def setsockopt_def getsockname_def getpeername_def read_def recv_def
  recvfrom_def recvmsg_def write_fd_def send_def sendto_def sendmsg_def

lemmas multiplexing_defs =
  select_def epoll_create_def epoll_create1_def epoll_ctl_def epoll_wait_def epoll_pwait_def

text \<open>The body shared by the twenty functions with a fallback, unfolded.\<close>

lemma fallback_shape:
  "obind (ensure_init env n s) (\<lambda>_ s.
       obind (tas env c s) (\<lambda>ret s.
         if ret = - 1 \<and> errno s = EBADF env then via env h c s else Returns ret s)) =
     (case ensure_init env n s of
        Returns _ s1 \<Rightarrow>
          (case tas_op env c (errno s1, world s1) of
             (ret, e, w) \<Rightarrow>
               let s2 = s1\<lparr>errno := e, world := w, trace := trace s1 @ [Ev_tas c]\<rparr> in
               if ret = - 1 \<and> e = EBADF env then
                 if libc s1 h = NULL then Segfault s2
                 else (case libc_op env (libc s1 h) c (e, w) of
                         (ret', e', w') \<Rightarrow>
                           Returns ret' (s2\<lparr>errno := e', world := w',
                             trace := trace s2 @ [Ev_libc h (libc s1 h) c]\<rparr>))
               else Returns ret s2)
      | Aborted s1 \<Rightarrow> Aborted s1
      | Segfault s1 \<Rightarrow> Segfault s1
      | Spinning s1 \<Rightarrow> Spinning s1)"
proof (cases "ensure_init env n s")
  case (Returns u s1)
  obtain ret e w where t: "tas_op env c (errno s1, world s1) = (ret, e, w)"
    by (cases "tas_op env c (errno s1, world s1)")
  show ?thesis
    by (simp add: Returns t obind_def tas_def via_def log_def Let_def split: prod.splits)
qed (simp_all add: obind_def)

text \<open>A call only ever adds to the trace.\<close>

lemma obind_grows:
  assumes "prefix t (trace (final m))"
    and "\<And>x s'. m = Returns x s' \<Longrightarrow> prefix (trace s') (trace (final (f x s')))"
  shows "prefix t (trace (final (obind m f)))"
proof (cases m)
  case (Returns x s')
  with assms(1) have "prefix t (trace s')" by simp
  moreover have "prefix (trace s') (trace (final (f x s')))" using assms(2) Returns by simp
  ultimately have "prefix t (trace (final (f x s')))" by (rule prefix_order.order_trans)
  then show ?thesis using Returns by (simp add: obind_def)
qed (use assms(1) in \<open>simp_all add: obind_def\<close>)

lemma tas_grows: "prefix (trace s) (trace (final (tas env c s)))"
  by (simp add: tas_def log_def split: prod.splits)

lemma via_grows: "prefix (trace s) (trace (final (via env h c s)))"
  by (simp add: via_def log_def split: prod.splits)

lemma bind_symbol_grows: "prefix (trace s) (trace (final (bind_symbol env symb s)))"
  by (simp add: bind_symbol_def log_def Let_def)

lemma assign_grows: "prefix (trace s) (trace (final (assign env h symb s)))"
  unfolding assign_def
  by (rule obind_grows [OF bind_symbol_grows]) (simp add: log_def)

lemma start_tas_grows: "prefix (trace s) (trace (final (start_tas env s)))"
  by (simp add: start_tas_def log_def Let_def split: prod.splits)

lemma stmts_grows:
  assumes "\<And>f s. f \<in> set fs \<Longrightarrow> prefix (trace s) (trace (final (f s)))"
  shows "prefix (trace s) (trace (final (stmts fs s)))"
  using assms
proof (induction fs arbitrary: s)
  case Nil
  then show ?case by simp
next
  case (Cons f fs)
  show ?case
    unfolding stmts.simps
    by (rule obind_grows) (simp_all add: Cons)
qed

lemma init_grows: "prefix (trace s) (trace (final (init env s)))"
  unfolding init_def
  by (rule stmts_grows) (auto simp add: assign_grows start_tas_grows)

lemma wait_done_grows: "prefix (trace s) (trace (final (wait_done env n s)))"
proof (induction n arbitrary: s)
  case 0
  then show ?case by simp
next
  case (Suc n)
  have "prefix (trace s) (trace (pthread_yield env s))"
    by (simp add: pthread_yield_def log_def Let_def)
  with Suc [of "pthread_yield env s"] show ?case
    by (auto intro: prefix_order.order_trans)
qed

lemma ensure_init_first:
  "prefix (trace s @ [Ev_ensure_init]) (trace (final (ensure_init env n s)))"
proof -
  let ?t = "trace s @ [Ev_ensure_init]"
  have a: "prefix ?t (trace (final (obind (init env s1) f)))"
    if "prefix ?t (trace s1)" "\<And>x s'. prefix (trace s') (trace (final (f x s')))" for s1 f
  proof (rule obind_grows)
    show "prefix ?t (trace (final (init env s1)))"
      using that(1) init_grows [of s1 env] by (rule prefix_order.order_trans)
  qed (rule that(2))
  have b: "prefix ?t (trace (final (obind (wait_done env n s1) f)))"
    if "prefix ?t (trace s1)" "\<And>x s'. prefix (trace s') (trace (final (f x s')))" for s1 f
  proof (rule obind_grows)
    show "prefix ?t (trace (final (wait_done env n s1)))"
      using that(1) wait_done_grows [of s1 env n] by (rule prefix_order.order_trans)
  qed (rule that(2))
  show ?thesis
    unfolding ensure_init_def Let_def
    by (auto intro!: a b)
qed

lemma dispatch_grows:
  "prefix (trace s') (trace (final (obind (tas env c s') (\<lambda>ret s.
      if ret = - 1 \<and> errno s = EBADF env then via env h c s else Returns ret s))))"
  by (rule obind_grows [OF tas_grows]) (simp add: via_grows)

lemma after_ensure_init:
  assumes "\<And>x s'. prefix (trace s') (trace (final (f x s')))"
  shows "prefix (trace s @ [Ev_ensure_init]) (trace (final (obind (ensure_init env n s) f)))"
  by (rule obind_grows [OF ensure_init_first]) (rule assms)

subsection \<open>The fallback family\<close>

text \<open>An \<open>int\<close> passed as the one variadic argument is read back as it was.\<close>

lemma int_slot:
  assumes "- (2 ^ 31) \<le> i" and "i < 2 ^ 31"
  shows "va_arg_int env (word_of_int i # rest) = i"
proof -
  have "(ucast (word_of_int i :: 64 word) :: 32 word) = word_of_int i"
    by (rule bit_word_eqI) (auto simp add: bit_simps)
  then show ?thesis
    using assms by (simp add: va_arg_int_def sint_sbintrunc' signed_take_bit_int_eq_self)
qed

text \<open>
  C1, as the code has it. For each of the twenty operations with a fallback (\<open>close\<close>,
  \<open>shutdown\<close>, \<open>bind\<close>, \<open>connect\<close>, \<open>listen\<close>, \<open>accept\<close>, \<open>accept4\<close>,
  \<open>fcntl\<close>, \<open>getsockopt\<close>, \<open>setsockopt\<close>, \<open>getsockname\<close>, \<open>getpeername\<close>,
  \<open>read\<close>, \<open>recv\<close>, \<open>recvfrom\<close>, \<open>recvmsg\<close>, \<open>write\<close>, \<open>send\<close>,
  \<open>sendto\<close>, \<open>sendmsg\<close>) and all arguments: once \<open>ensure_init\<close> has returned,
  the TAS operation is called first. If and only if it returns \<open>-1\<close> with
  \<open>errno = EBADF\<close>, the libc function behind the operation's own pointer is called
  once with the arguments TAS was given, and its value, \<open>errno\<close> and effect are those
  of the call; otherwise the value, \<open>errno\<close> and effect of TAS are, and the trace holds
  no libc call. The trace gains one TAS call and at most one libc call. For the nineteen
  operations other than \<open>fcntl\<close> the backends are given the arguments of the call,
  identical. \<open>fcntl\<close> gives them its first two arguments and, as the third, the low 32
  bits of its first variadic slot read as an \<open>int\<close>: an \<open>int\<close> argument arrives
  identical, a pointer or a \<open>long\<close> is cut, and with no third argument the backends
  get what the slot happens to hold.
\<close>

theorem fallback_dispatch:
  assumes "native_of a = Some h"
  shows "interpose env n a s =
     (case ensure_init env n s of
        Returns _ s1 \<Rightarrow>
          (case tas_op env (forwarded env a) (errno s1, world s1) of
             (ret, e, w) \<Rightarrow>
               let s2 = s1\<lparr>errno := e, world := w,
                          trace := trace s1 @ [Ev_tas (forwarded env a)]\<rparr> in
               if ret = - 1 \<and> e = EBADF env then
                 if libc s1 h = NULL then Segfault s2
                 else (case libc_op env (libc s1 h) (forwarded env a) (e, w) of
                         (ret', e', w') \<Rightarrow>
                           Returns ret' (s2\<lparr>errno := e', world := w',
                             trace := trace s2 @ [Ev_libc h (libc s1 h) (forwarded env a)]\<rparr>))
               else Returns ret s2)
      | Aborted s1 \<Rightarrow> Aborted s1
      | Segfault s1 \<Rightarrow> Segfault s1
      | Spinning s1 \<Rightarrow> Spinning s1) \<and>
     (case a of
        Fcntl sockfd cmd val \<Rightarrow>
          forwarded env a =
            Fcntl sockfd cmd
              (sint (ucast (case val of [] \<Rightarrow> va_residue env | slot # _ \<Rightarrow> slot) :: 32 word))
      | _ \<Rightarrow> identical a (forwarded env a)) \<and>
     (\<forall>sockfd cmd i. a = Fcntl sockfd cmd [word_of_int i] \<and> - (2 ^ 31) \<le> i \<and> i < 2 ^ 31 \<longrightarrow>
        identical a (forwarded env a))"
proof (intro conjI allI impI)
  have "interpose env n a s =
      obind (ensure_init env n s) (\<lambda>_ s.
        obind (tas env (forwarded env a) s) (\<lambda>ret s.
          if ret = - 1 \<and> errno s = EBADF env then via env h (forwarded env a) s
          else Returns ret s))"
    using assms
    by (cases a) (auto simp add: fallback_defs forwarded_def Let_def cong del: if_weak_cong)
  then show "interpose env n a s =
     (case ensure_init env n s of
        Returns _ s1 \<Rightarrow>
          (case tas_op env (forwarded env a) (errno s1, world s1) of
             (ret, e, w) \<Rightarrow>
               let s2 = s1\<lparr>errno := e, world := w,
                          trace := trace s1 @ [Ev_tas (forwarded env a)]\<rparr> in
               if ret = - 1 \<and> e = EBADF env then
                 if libc s1 h = NULL then Segfault s2
                 else (case libc_op env (libc s1 h) (forwarded env a) (e, w) of
                         (ret', e', w') \<Rightarrow>
                           Returns ret' (s2\<lparr>errno := e', world := w',
                             trace := trace s2 @ [Ev_libc h (libc s1 h) (forwarded env a)]\<rparr>))
               else Returns ret s2)
      | Aborted s1 \<Rightarrow> Aborted s1
      | Segfault s1 \<Rightarrow> Segfault s1
      | Spinning s1 \<Rightarrow> Spinning s1)"
    by (simp only: fallback_shape)
next
  show "case a of
        Fcntl sockfd cmd val \<Rightarrow>
          forwarded env a =
            Fcntl sockfd cmd
              (sint (ucast (case val of [] \<Rightarrow> va_residue env | slot # _ \<Rightarrow> slot) :: 32 word))
      | _ \<Rightarrow> identical a (forwarded env a)"
    using assms
    by (cases a) (simp_all add: forwarded_def identical_def va_arg_int_def)
next
  fix sockfd cmd i
  assume "a = Fcntl sockfd cmd [word_of_int i] \<and> - (2 ^ 31) \<le> i \<and> i < 2 ^ 31"
  then show "identical a (forwarded env a)"
    by (simp add: forwarded_def identical_def passed_whole_def int_slot)
qed

text \<open>
  \<open>close(5)\<close>, and \<open>fcntl(5, F_SETFL, O_NONBLOCK)\<close> with \<open>F_SETFL = 4\<close> and
  \<open>O_NONBLOCK = 0x800\<close>.
\<close>

theorem fallback_dispatch_witness:
  "native_of (Close 5 :: va_list call) = Some libc_close \<and>
   interpose stranger 0 (Close 5) ready =
     Returns 0 (ready\<lparr>errno := 9, world := 101,
        trace := [Ev_ensure_init, Ev_tas (Close 5), Ev_libc libc_close 0x7F00 (Close 5)]\<rparr>) \<and>
   identical (Close 5) (Close 5) \<and>
   native_of (Fcntl 5 4 [0x800]) = Some libc_fcntl \<and>
   interpose stranger 0 (Fcntl 5 4 [0x800]) ready =
     Returns 0 (ready\<lparr>errno := 9, world := 101,
        trace := [Ev_ensure_init, Ev_tas (Fcntl 5 4 0x800),
                  Ev_libc libc_fcntl 0x7F00 (Fcntl 5 4 0x800)]\<rparr>) \<and>
   identical (Fcntl 5 4 [0x800]) (Fcntl 5 4 0x800)"
  using fallback_dispatch [of "Close 5" libc_close stranger 0 ready]
    fallback_dispatch [of "Fcntl 5 4 [0x800]" libc_fcntl stranger 0 ready]
  by (simp add: ensure_init_def ready_def stranger_def log_def forwarded_def NULL_def
        va_arg_int_def identical_def passed_whole_def)

text \<open>
  With identical arguments promised for every operation, the statement fails for
  \<open>fcntl(5, F_SETLK, p)\<close> with \<open>F_SETLK = 6\<close> and a pointer \<open>p\<close> above 4 GiB: both
  backends are given the low half of \<open>p\<close>, as they would be for a call with that other
  pointer.
\<close>

theorem fcntl_pointer_is_cut:
  "interpose stranger 0 (Fcntl 5 6 [0x00007FFD12345678]) ready =
     Returns 0 (ready\<lparr>errno := 9, world := 101,
        trace := [Ev_ensure_init, Ev_tas (Fcntl 5 6 0x12345678),
                  Ev_libc libc_fcntl 0x7F00 (Fcntl 5 6 0x12345678)]\<rparr>) \<and>
   \<not> identical (Fcntl 5 6 [0x00007FFD12345678]) (Fcntl 5 6 0x12345678) \<and>
   interpose stranger 0 (Fcntl 5 6 [0x00007FFD12345678]) ready =
     interpose stranger 0 (Fcntl 5 6 [0x12345678]) ready"
  by (simp add: fcntl_def va_arg_int_def ensure_init_def obind_def tas_def via_def ready_def
        stranger_def log_def NULL_def identical_def passed_whole_def)

subsection \<open>Socket creation\<close>

text \<open>
  C2. For every call \<open>socket(domain, type, protocol)\<close>, once \<open>ensure_init\<close> has
  returned: \<open>tas_socket\<close> is called if and only if \<open>domain\<close> is \<open>AF_INET\<close> and
  \<open>type\<close> is \<open>SOCK_STREAM\<close>; for every other pair \<open>libc_socket\<close> is called with
  the same three arguments and TAS is not called.
\<close>

theorem socket_routing:
  "socket env n domain type protocol s =
     (case ensure_init env n s of
        Returns _ s1 \<Rightarrow>
          if domain = AF_INET env \<and> type = SOCK_STREAM env
          then (case tas_op env (Socket domain type protocol) (errno s1, world s1) of
                  (ret, e, w) \<Rightarrow>
                    Returns ret (s1\<lparr>errno := e, world := w,
                      trace := trace s1 @ [Ev_tas (Socket domain type protocol)]\<rparr>))
          else if libc s1 libc_socket = NULL then Segfault s1
          else (case libc_op env (libc s1 libc_socket) (Socket domain type protocol)
                       (errno s1, world s1) of
                  (ret, e, w) \<Rightarrow>
                    Returns ret (s1\<lparr>errno := e, world := w,
                      trace := trace s1 @
                        [Ev_libc libc_socket (libc s1 libc_socket) (Socket domain type protocol)]\<rparr>))
      | Aborted s1 \<Rightarrow> Aborted s1
      | Segfault s1 \<Rightarrow> Segfault s1
      | Spinning s1 \<Rightarrow> Spinning s1)"
  by (simp add: socket_def obind_def tas_def via_def log_def split: outcome.splits prod.splits)

theorem socket_routing_witness:
  "socket stranger 0 2 1 0 ready =
     Returns (- 1) (ready\<lparr>errno := 9, world := 1,
        trace := [Ev_ensure_init, Ev_tas (Socket 2 1 0)]\<rparr>) \<and>
   socket stranger 0 1 1 0 ready =
     Returns 0 (ready\<lparr>world := 100,
        trace := [Ev_ensure_init, Ev_libc libc_socket 0x7F00 (Socket 1 1 0)]\<rparr>) \<and>
   socket stranger 0 2 2 17 ready =
     Returns 0 (ready\<lparr>world := 100,
        trace := [Ev_ensure_init, Ev_libc libc_socket 0x7F00 (Socket 2 2 17)]\<rparr>)"
  using socket_routing [of stranger 0 2 1 0 ready] socket_routing [of stranger 0 1 1 0 ready]
    socket_routing [of stranger 0 2 2 17 ready]
  by (simp add: ensure_init_def ready_def stranger_def log_def NULL_def)

text \<open>
  C9. For \<open>socket(AF_INET, SOCK_STREAM, protocol)\<close> the result of \<open>tas_socket\<close> is
  the result of the call whatever it is, \<open>-1\<close> with \<open>EBADF\<close> included, and
  \<open>libc_socket\<close> is not called.
\<close>

theorem socket_tcp_no_fallback:
  assumes "ensure_init env n s = Returns () s1"
    and "tas_op env (Socket (AF_INET env) (SOCK_STREAM env) protocol) (errno s1, world s1) =
           (ret, e, w)"
  shows "socket env n (AF_INET env) (SOCK_STREAM env) protocol s =
           Returns ret (s1\<lparr>errno := e, world := w,
             trace := trace s1 @ [Ev_tas (Socket (AF_INET env) (SOCK_STREAM env) protocol)]\<rparr>)"
  using assms by (simp add: socket_def obind_def tas_def)

theorem socket_tcp_no_fallback_witness:
  "ensure_init stranger 0 ready = Returns () (ready\<lparr>trace := [Ev_ensure_init]\<rparr>) \<and>
   tas_op stranger (Socket 2 1 0) (0, 0) = (- 1, EBADF stranger, 1) \<and>
   socket stranger 0 2 1 0 ready =
     Returns (- 1) (ready\<lparr>errno := 9, world := 1,
        trace := [Ev_ensure_init, Ev_tas (Socket 2 1 0)]\<rparr>)"
  using socket_tcp_no_fallback [of stranger 0 ready "ready\<lparr>trace := [Ev_ensure_init]\<rparr>" 0 "- 1" 9 1]
  by (simp add: ensure_init_def ready_def stranger_def log_def)

subsection \<open>The readiness-multiplexing family\<close>

text \<open>
  C3. Each of \<open>select\<close>, \<open>epoll_create\<close>, \<open>epoll_create1\<close>, \<open>epoll_ctl\<close>,
  \<open>epoll_wait\<close> and \<open>epoll_pwait\<close> calls, for all arguments, the TAS operation of
  the same name with the same arguments and returns its result; no libc function is
  called, whatever TAS answers.
\<close>

theorem multiplexing_dispatch:
  assumes "multiplexing a"
  shows "interpose env n a s =
     (case tas_op env (forwarded env a) (errno s, world s) of
        (ret, e, w) \<Rightarrow>
          Returns ret (s\<lparr>errno := e, world := w,
            trace := trace s @ [Ev_tas (forwarded env a)]\<rparr>))"
  using assms
  by (cases a)
     (simp_all add: multiplexing_defs forwarded_def tas_def log_def split: prod.splits)

theorem multiplexing_dispatch_witness:
  "multiplexing (Epoll_wait 4 0 16 0 :: va_list call) \<and>
   interpose stranger 0 (Epoll_wait 4 0 16 0) ready =
     Returns (- 1) (ready\<lparr>errno := EBADF stranger, world := 1,
        trace := [Ev_tas (Epoll_wait 4 0 16 0)]\<rparr>)"
  using multiplexing_dispatch [of "Epoll_wait 4 0 16 0" stranger 0 ready]
  by (simp add: ready_def stranger_def forwarded_def)

subsection \<open>\<open>ensure_init\<close> comes first, where it is called\<close>

text \<open>
  C4, as the code has it. Every operation outside the readiness-multiplexing family
  calls \<open>ensure_init\<close> before anything else: the first event the call adds to the
  trace is \<open>ensure_init\<close>, so every backend call of that call comes after it. The six
  operations of the readiness-multiplexing family do not call \<open>ensure_init\<close>: all
  they add to the trace is the one TAS call.
\<close>

theorem ensure_init_precedes_except_multiplexing:
  "(\<not> multiplexing a \<longrightarrow>
      prefix (trace s @ [Ev_ensure_init]) (trace (final (interpose env n a s)))) \<and>
   (multiplexing a \<longrightarrow>
      added s (interpose env n a s) = [Ev_tas (forwarded env a)])"
proof (intro conjI impI)
  assume "\<not> multiplexing a"
  then show "prefix (trace s @ [Ev_ensure_init]) (trace (final (interpose env n a s)))"
    by (cases a)
       (simp_all add: fallback_defs socket_def Let_def after_ensure_init dispatch_grows via_grows
          tas_grows)
next
  assume "multiplexing a"
  then show "added s (interpose env n a s) = [Ev_tas (forwarded env a)]"
    by (cases a)
       (simp_all add: multiplexing_defs forwarded_def added_def tas_def split: prod.splits)
qed

theorem ensure_init_precedes_witness:
  "\<not> multiplexing (Close 5 :: va_list call) \<and>
   prefix [Ev_ensure_init] (trace (final (interpose stranger 0 (Close 5) ready))) \<and>
   multiplexing (Epoll_create1 0 :: va_list call) \<and>
   added ready (interpose stranger 0 (Epoll_create1 0) ready) = [Ev_tas (Epoll_create1 0)]"
  using ensure_init_precedes_except_multiplexing [of "Close 5" ready stranger 0]
    ensure_init_precedes_except_multiplexing [of "Epoll_create1 0" ready stranger 0]
  by (simp add: ready_def forwarded_def)

text \<open>
  The statement with the readiness-multiplexing family included fails for \<open>select\<close>:
  called as the first operation of a process, it calls \<open>tas_select\<close> and nothing
  else.
\<close>

theorem select_skips_ensure_init:
  "added fresh (interpose stranger 0 (Select 1 0 0 0 0) fresh) = [Ev_tas (Select 1 0 0 0 0)]"
  by (simp add: select_def added_def tas_def fresh_def stranger_def)

subsection \<open>The variadic argument of \<open>fcntl\<close>\<close>

text \<open>
  C10. \<open>fcntl\<close> reads one variadic argument as an \<open>int\<close>, whatever \<open>cmd\<close> is: the
  low 32 bits of the first variadic slot, or of what the slot holds when the caller
  passed no third argument; a pointer is cut to its low 32 bits and further arguments are
  not read. That one \<open>int\<close> goes to \<open>tas_fcntl\<close> and, on \<open>-1\<close> with \<open>EBADF\<close>,
  to \<open>libc_fcntl\<close>.
\<close>

theorem fcntl_one_int:
  "fcntl env n sockfd cmd val s =
     (let arg = sint (ucast (case val of [] \<Rightarrow> va_residue env | slot # _ \<Rightarrow> slot) :: 32 word) in
      case ensure_init env n s of
        Returns _ s1 \<Rightarrow>
          (case tas_op env (Fcntl sockfd cmd arg) (errno s1, world s1) of
             (ret, e, w) \<Rightarrow>
               let s2 = s1\<lparr>errno := e, world := w,
                          trace := trace s1 @ [Ev_tas (Fcntl sockfd cmd arg)]\<rparr> in
               if ret = - 1 \<and> e = EBADF env then
                 if libc s1 libc_fcntl = NULL then Segfault s2
                 else (case libc_op env (libc s1 libc_fcntl) (Fcntl sockfd cmd arg) (e, w) of
                         (ret', e', w') \<Rightarrow>
                           Returns ret' (s2\<lparr>errno := e', world := w',
                             trace := trace s2 @
                               [Ev_libc libc_fcntl (libc s1 libc_fcntl) (Fcntl sockfd cmd arg)]\<rparr>))
               else Returns ret s2)
      | Aborted s1 \<Rightarrow> Aborted s1
      | Segfault s1 \<Rightarrow> Segfault s1
      | Spinning s1 \<Rightarrow> Spinning s1)"
proof -
  have "fcntl env n sockfd cmd val s =
      obind (ensure_init env n s) (\<lambda>_ s.
        obind (tas env (Fcntl sockfd cmd (va_arg_int env val)) s) (\<lambda>ret s.
          if ret = - 1 \<and> errno s = EBADF env
          then via env libc_fcntl (Fcntl sockfd cmd (va_arg_int env val)) s
          else Returns ret s))"
    by (simp add: fcntl_def Let_def)
  then show ?thesis
    by (simp only: fallback_shape va_arg_int_def Let_def)
qed

text \<open>
  \<open>F_GETFL\<close> (3) without a third argument, \<open>F_SETLK\<close> (6) with a pointer,
  \<open>F_SETFL\<close> (4) with \<open>O_NONBLOCK\<close> and a stray further argument.
\<close>

theorem fcntl_one_int_witness:
  "fcntl stranger 0 5 3 [] ready =
     Returns 0 (ready\<lparr>errno := 9, world := 101,
        trace := [Ev_ensure_init, Ev_tas (Fcntl 5 3 7), Ev_libc libc_fcntl 0x7F00 (Fcntl 5 3 7)]\<rparr>) \<and>
   fcntl stranger 0 5 6 [0x00007FFD12345678] ready =
     Returns 0 (ready\<lparr>errno := 9, world := 101,
        trace := [Ev_ensure_init, Ev_tas (Fcntl 5 6 0x12345678),
                  Ev_libc libc_fcntl 0x7F00 (Fcntl 5 6 0x12345678)]\<rparr>) \<and>
   fcntl stranger 0 5 4 [0x800, 0x99] ready =
     Returns 0 (ready\<lparr>errno := 9, world := 101,
        trace := [Ev_ensure_init, Ev_tas (Fcntl 5 4 0x800),
                  Ev_libc libc_fcntl 0x7F00 (Fcntl 5 4 0x800)]\<rparr>)"
  using fcntl_one_int [of stranger 0 5 3 "[]" ready]
    fcntl_one_int [of stranger 0 5 6 "[0x00007FFD12345678]" ready]
    fcntl_one_int [of stranger 0 5 4 "[0x800, 0x99]" ready]
  by (simp add: ensure_init_def ready_def stranger_def log_def NULL_def)

subsection \<open>A call from inside the initialization\<close>

lemma interpose_not_stuck:
  assumes "ensure_init env n s = Returns () s1"
  shows "interpose env n a s \<noteq> Spinning st" "interpose env n a s \<noteq> Aborted st"
  using assms
  by (cases a;
      simp add: fallback_defs multiplexing_defs socket_def obind_def tas_def via_def Let_def
        split: prod.splits)+

text \<open>
  C6. With the thread's \<open>in_init\<close> set and \<open>init_done\<close> still zero, \<open>ensure_init\<close>
  returns at once: no fetch-and-add, no \<open>init\<close>, no wait loop, nothing changed but the
  trace. So an interposed call made from inside the initialization never hangs in the
  wait loop, however little the thread is prepared to wait, and never aborts in \<open>ensure_init\<close>.
\<close>

theorem reentrant_call_passes:
  assumes "in_init s \<noteq> 0" and "init_done s = 0"
  shows "ensure_init env n s = Returns () (s\<lparr>trace := trace s @ [Ev_ensure_init]\<rparr>) \<and>
         (\<forall>a st. interpose env n a s \<noteq> Spinning st \<and> interpose env n a s \<noteq> Aborted st)"
proof -
  have e: "ensure_init env n s = Returns () (s\<lparr>trace := trace s @ [Ev_ensure_init]\<rparr>)"
    using assms by (simp add: ensure_init_def Let_def log_def)
  show ?thesis
    using e interpose_not_stuck [OF e] by blast
qed

theorem reentrant_call_passes_witness:
  "in_init starting \<noteq> 0 \<and> init_done starting = 0 \<and>
   ensure_init stranger 0 starting = Returns () (starting\<lparr>trace := [Ev_ensure_init]\<rparr>) \<and>
   interpose stranger 0 (Socket 1 1 0) starting =
     Returns 0 (starting\<lparr>world := 100,
       trace := [Ev_ensure_init, Ev_libc libc_socket 0x7F00 (Socket 1 1 0)]\<rparr>)"
  using reentrant_call_passes [of starting stranger 0]
  by (simp add: starting_def stranger_def socket_def obind_def via_def NULL_def)

subsection \<open>What \<open>init\<close> does\<close>

lemma stmts_append: "stmts (fs @ gs) s = obind (stmts fs s) (\<lambda>_. stmts gs)"
proof (induction fs arbitrary: s)
  case Nil
  show ?case by (simp add: obind_def)
next
  case (Cons f fs)
  show ?case
    by (cases "f s") (simp_all add: obind_def Cons)
qed

lemma assign_resolves:
  assumes "dlsym_next env symb \<noteq> NULL"
  shows "assign env h symb s =
    Returns () (s\<lparr>libc := (libc s)(h := dlsym_next env symb),
                  trace := trace s @ [Ev_dlsym symb, Ev_assign h (dlsym_next env symb)]\<rparr>)"
  using assms by (simp add: assign_def bind_symbol_def obind_def Let_def log_def)

lemma assign_fails:
  assumes "dlsym_next env symb = NULL"
  shows "assign env h symb s =
    Aborted (s\<lparr>trace := trace s @ [Ev_dlsym symb, Ev_fprintf (diagnostic symb), Ev_abort]\<rparr>)"
  using assms by (simp add: assign_def bind_symbol_def obind_def Let_def log_def)

lemma assigns_resolve:
  assumes "\<forall>(h, symb) \<in> set hs. dlsym_next env symb \<noteq> NULL"
  shows "stmts (map (\<lambda>(h, symb). assign env h symb) hs @ rest) s =
    stmts rest (s\<lparr>libc := resolved_table env hs (libc s),
                   trace := trace s @ resolved_events env hs\<rparr>)"
  using assms
proof (induction hs arbitrary: s)
  case Nil
  show ?case by (simp add: resolved_table_def resolved_events_def)
next
  case (Cons x hs)
  obtain h symb where x: "x = (h, symb)" by (cases x)
  have r: "dlsym_next env symb \<noteq> NULL" using Cons.prems x by simp
  have rest: "\<forall>(h, symb) \<in> set hs. dlsym_next env symb \<noteq> NULL" using Cons.prems by simp
  show ?case
    by (simp add: x assign_resolves [OF r] obind_def Cons.IH [OF rest]
          resolved_table_def resolved_events_def fun_upd_def)
qed

lemma init_table:
  "init env = stmts (map (\<lambda>(h, symb). assign env h symb) symbols @ [start_tas env])"
  by (simp add: init_def symbols_def)

lemma init_symbol_fails:
  assumes "symbols = pre @ (h, symb) # post"
    and "\<forall>(h', symb') \<in> set pre. dlsym_next env symb' \<noteq> NULL"
    and "dlsym_next env symb = NULL"
  shows "init env s =
    Aborted (s\<lparr>libc := resolved_table env pre (libc s),
       trace := trace s @ resolved_events env pre @
         [Ev_dlsym symb, Ev_fprintf (diagnostic symb), Ev_abort]\<rparr>)"
proof -
  have "init env s =
      stmts (map (\<lambda>(h, symb). assign env h symb) pre @
        (assign env h symb # map (\<lambda>(h, symb). assign env h symb) post @ [start_tas env])) s"
    by (simp add: init_table assms(1))
  also have "\<dots> = stmts (assign env h symb # map (\<lambda>(h, symb). assign env h symb) post @ [start_tas env])
      (s\<lparr>libc := resolved_table env pre (libc s), trace := trace s @ resolved_events env pre\<rparr>)"
    by (rule assigns_resolve [OF assms(2)])
  also have "\<dots> = Aborted (s\<lparr>libc := resolved_table env pre (libc s),
       trace := trace s @ resolved_events env pre @
         [Ev_dlsym symb, Ev_fprintf (diagnostic symb), Ev_abort]\<rparr>)"
    by (simp add: assign_fails [OF assms(3)] obind_def)
  finally show ?thesis .
qed

lemma init_resolved:
  assumes "\<forall>(h', symb') \<in> set symbols. dlsym_next env symb' \<noteq> NULL"
  shows "init env s =
    start_tas env (s\<lparr>libc := resolved_table env symbols (libc s),
       trace := trace s @ resolved_events env symbols\<rparr>)"
proof -
  have "init env s = stmts [start_tas env]
      (s\<lparr>libc := resolved_table env symbols (libc s),
         trace := trace s @ resolved_events env symbols\<rparr>)"
    unfolding init_table by (rule assigns_resolve [OF assms])
  then show ?thesis
    by (cases "start_tas env (s\<lparr>libc := resolved_table env symbols (libc s),
       trace := trace s @ resolved_events env symbols\<rparr>)") (simp_all add: obind_def)
qed

lemma ensure_init_aborts:
  assumes "\<not> multiplexing a" and "ensure_init env n s = Aborted st"
  shows "interpose env n a s = Aborted st"
  using assms
  by (cases a) (simp_all add: fallback_defs socket_def obind_def)

section \<open>Properties of the initialization under interleaving\<close>

subsection \<open>One thread alone\<close>

text \<open>
  A thread that runs alone from the start of the process goes through \<open>ensure_init\<close>
  in 30 steps. Where every name is resolved and \<open>tas_init\<close> succeeds, it then stands
  where the function \<open>ensure_init\<close> of the first part returns: same statics, same table,
  same thread-local variables, same trace.
\<close>

lemma solo_run_agrees:
  assumes r: "\<forall>(h, symb) \<in> set symbols. dlsym_next env symb \<noteq> NULL"
    and i: "tas_init env (0, w) = (0, e, w')"
  shows "ensure_init env n (starts w) =
           Returns () \<lparr>errno = t_errno (run env (solo t) (boot w)) t,
             init_cnt = g_init_cnt (run env (solo t) (boot w)),
             init_done = g_init_done (run env (solo t) (boot w)),
             in_init = t_in_init (run env (solo t) (boot w)) t,
             libc = g_libc (run env (solo t) (boot w)),
             world = g_world (run env (solo t) (boot w)),
             trace = t_trace (run env (solo t) (boot w)) t\<rparr>"
proof -
  have seq: "ensure_init env n (starts w) =
      Returns () \<lparr>errno = e, init_cnt = 1, init_done = 1, in_init = 0,
        libc = resolved_table env symbols (\<lambda>h. NULL), world = w',
        trace = [Ev_ensure_init, Ev_fetch_and_add 0] @ resolved_events env symbols @
          [Ev_tas_init, Ev_barrier, Ev_publish]\<rparr>"
    using i
    by (simp add: ensure_init_def Let_def init_resolved [OF r] start_tas_def obind_def starts_def)
  have con: "run env (solo t) (boot w) =
      \<lparr>g_init_cnt = 1, g_init_done = 1, g_libc = resolved_table env symbols (\<lambda>h. NULL),
       g_world = w', aborted = False, t_pc = (\<lambda>t. At_check_done)(t := At_return),
       t_in_init = (\<lambda>t. 0)(t := 0), t_errno = (\<lambda>t. 0)(t := e),
       t_trace = (\<lambda>t. [])(t := [Ev_ensure_init, Ev_fetch_and_add 0] @
         resolved_events env symbols @ [Ev_tas_init, Ev_barrier, Ev_publish])\<rparr>"
    using r i
    by (simp add: solo_def boot_def step_def goto_def emit_def symbols_def Let_def
          resolved_events_def resolved_table_def)
  show ?thesis
    unfolding seq con by simp
qed

subsection \<open>Steps keep the invariant\<close>

lemma goto_simps [simp]:
  "t_pc (goto t l p) = (t_pc p)(t := l)"
  "g_init_cnt (goto t l p) = g_init_cnt p" "g_init_done (goto t l p) = g_init_done p"
  "g_libc (goto t l p) = g_libc p" "g_world (goto t l p) = g_world p"
  "aborted (goto t l p) = aborted p" "t_in_init (goto t l p) = t_in_init p"
  "t_errno (goto t l p) = t_errno p" "t_trace (goto t l p) = t_trace p"
  by (simp_all add: goto_def)

lemma emit_simps [simp]:
  "t_trace (emit t es p) = (t_trace p)(t := t_trace p t @ es)"
  "g_init_cnt (emit t es p) = g_init_cnt p" "g_init_done (emit t es p) = g_init_done p"
  "g_libc (emit t es p) = g_libc p" "g_world (emit t es p) = g_world p"
  "aborted (emit t es p) = aborted p" "t_in_init (emit t es p) = t_in_init p"
  "t_errno (emit t es p) = t_errno p" "t_pc (emit t es p) = t_pc p"
  by (simp_all add: emit_def)

lemma initializer_ticketed: "initializer p t \<Longrightarrow> t \<in> ticketed p"
  unfolding initializer_def ticketed_def
  by (auto intro: bexI [where x = "Ev_fetch_and_add 0"])

lemma counter_zero:
  assumes "n < 2 ^ 32"
  shows "(of_nat n :: 32 word) = 0 \<longleftrightarrow> n = 0"
  using assms of_nat_neq_0 [of n, where 'a = 32] by auto

lemma thread_inv_frame:
  assumes "thread_inv env p t'"
    and "t_pc p' t' = t_pc p t'" and "t_in_init p' t' = t_in_init p t'"
    and "t_trace p' t' = t_trace p t'"
    and "aborted p \<longrightarrow> aborted p'"
    and "initializer p t' \<longrightarrow> g_libc p' = g_libc p \<and> g_init_done p' = g_init_done p"
    and "g_init_done p \<noteq> 0 \<longrightarrow> g_init_done p' \<noteq> 0"
  shows "thread_inv env p' t'"
  using assms
  unfolding thread_inv_def ticketed_def initializer_def work_def
  by (cases "t_pc p t'") auto


lemma inv_thread: "process_inv env T p \<Longrightarrow> thread_inv env p t"
  by (simp add: process_inv_def)

lemma inv_others:
  assumes "process_inv env T p" and "initializer p t" and "t' \<noteq> t"
  shows "\<not> initializer p t'"
  using assms by (auto simp add: process_inv_def)

lemma inv_finite: "process_inv env T p \<Longrightarrow> finite (ticketed p)"
  by (auto simp add: process_inv_def intro: finite_subset)

lemma inv_card: "process_inv env T p \<Longrightarrow> card (ticketed p) < 2 ^ 32"
proof -
  assume i: "process_inv env T p"
  then have "card (ticketed p) \<le> card T"
    by (auto simp add: process_inv_def intro: card_mono)
  with i show ?thesis by (simp add: process_inv_def)
qed


lemma others_kept:
  assumes "process_inv env T p" and "t' \<noteq> t"
    and "t_pc p' t' = t_pc p t'" and "t_in_init p' t' = t_in_init p t'"
    and "t_trace p' t' = t_trace p t'"
    and "aborted p \<longrightarrow> aborted p'"
    and "initializer p t \<or> g_libc p' = g_libc p \<and> g_init_done p' = g_init_done p"
    and "g_init_done p \<noteq> 0 \<longrightarrow> g_init_done p' \<noteq> 0"
  shows "thread_inv env p' t'"
proof (rule thread_inv_frame [OF inv_thread [OF assms(1)]])
  show "initializer p t' \<longrightarrow> g_libc p' = g_libc p \<and> g_init_done p' = g_init_done p"
    using assms(7) inv_others [OF assms(1) _ assms(2)] by auto
qed (use assms in simp_all)

lemma process_inv_kept:
  assumes "process_inv env T p"
    and "ticketed p' = ticketed p" and "initializer p' = initializer p"
    and "g_init_cnt p' = g_init_cnt p"
    and "(\<forall>t. \<not> initializer p t) \<longrightarrow> g_libc p' = g_libc p"
    and "aborted p' \<longrightarrow> g_init_done p' = 0"
    and "g_init_done p' \<noteq> 0 \<longrightarrow> g_init_done p \<noteq> 0 \<or> (\<exists>t. initializer p t)"
    and "\<And>t'. thread_inv env p' t'"
  shows "process_inv env T p'"
  using assms unfolding process_inv_def by auto

lemma step_check_done:
  assumes "process_inv env T p" and "\<not> aborted p" and "t_pc p t = At_check_done"
  shows "process_inv env T (step env t p)"
proof -
  let ?p = "step env t p"
  have me: "thread_inv env p t" using assms(1) by (rule inv_thread)
  obtain l where eq: "?p = goto t l (emit t [Ev_ensure_init] p)"
    and l: "l = (if g_init_done p = 0 then At_check_in_init else At_return)"
    using assms by (simp add: step_def)
  have own: "thread_inv env ?p t"
    using me assms(3)
    by (auto simp add: thread_inv_def eq l ticketed_def initializer_def work_def)
  have oth: "thread_inv env ?p t'" if "t' \<noteq> t" for t'
    by (rule others_kept [OF assms(1) that]) (use that in \<open>simp_all add: eq\<close>)
  have all: "thread_inv env ?p t'" for t'
    using own oth by (cases "t' = t") auto
  show ?thesis
    by (rule process_inv_kept [OF assms(1)])
       (auto simp add: eq all [unfolded eq] ticketed_def initializer_def fun_eq_iff assms(2))
qed

lemma step_check_in_init:
  assumes "process_inv env T p" and "\<not> aborted p" and "t_pc p t = At_check_in_init"
  shows "process_inv env T (step env t p)"
proof -
  let ?p = "step env t p"
  have me: "thread_inv env p t" using assms(1) by (rule inv_thread)
  have eq: "?p = goto t At_fetch_and_add p"
    using assms me by (simp add: step_def thread_inv_def)
  have own: "thread_inv env ?p t"
    using me assms(3)
    by (auto simp add: thread_inv_def eq ticketed_def initializer_def work_def)
  have oth: "thread_inv env ?p t'" if "t' \<noteq> t" for t'
    by (rule others_kept [OF assms(1) that]) (use that in \<open>simp_all add: eq\<close>)
  have all: "thread_inv env ?p t'" for t'
    using own oth by (cases "t' = t") auto
  show ?thesis
    by (rule process_inv_kept [OF assms(1)])
       (auto simp add: eq all [unfolded eq] ticketed_def initializer_def fun_eq_iff assms(2))
qed

lemma step_set_in_init:
  assumes "process_inv env T p" and "\<not> aborted p" and "t_pc p t = At_set_in_init"
  shows "process_inv env T (step env t p)"
proof -
  let ?p = "step env t p"
  have me: "thread_inv env p t" using assms(1) by (rule inv_thread)
  have eq: "?p = goto t (At_bind 0) (p\<lparr>t_in_init := (t_in_init p)(t := 1)\<rparr>)"
    using assms by (simp add: step_def)
  have own: "thread_inv env ?p t"
    using me assms(3)
    by (auto simp add: thread_inv_def eq ticketed_def initializer_def work_def symbols_def
          resolved_events_def)
  have oth: "thread_inv env ?p t'" if "t' \<noteq> t" for t'
    by (rule others_kept [OF assms(1) that]) (use that in \<open>simp_all add: eq\<close>)
  have all: "thread_inv env ?p t'" for t'
    using own oth by (cases "t' = t") auto
  show ?thesis
    by (rule process_inv_kept [OF assms(1)])
       (auto simp add: eq all [unfolded eq] ticketed_def initializer_def fun_eq_iff assms(2))
qed


lemma step_clear_in_init:
  assumes "process_inv env T p" and "\<not> aborted p" and "t_pc p t = At_clear_in_init"
  shows "process_inv env T (step env t p)"
proof -
  let ?p = "step env t p"
  have me: "thread_inv env p t" using assms(1) by (rule inv_thread)
  have eq: "?p = goto t At_barrier (p\<lparr>t_in_init := (t_in_init p)(t := 0)\<rparr>)"
    using assms by (simp add: step_def)
  have own: "thread_inv env ?p t"
    using me assms(3)
    by (auto simp add: thread_inv_def eq ticketed_def initializer_def work_def)
  have oth: "thread_inv env ?p t'" if "t' \<noteq> t" for t'
    by (rule others_kept [OF assms(1) that])
       (use that me assms(3) in \<open>simp_all add: eq thread_inv_def\<close>)
  have all: "thread_inv env ?p t'" for t'
    using own oth by (cases "t' = t") auto
  show ?thesis
    by (rule process_inv_kept [OF assms(1)])
       (auto simp add: eq all [unfolded eq] ticketed_def initializer_def fun_eq_iff assms(2))
qed

lemma step_barrier:
  assumes "process_inv env T p" and "\<not> aborted p" and "t_pc p t = At_barrier"
  shows "process_inv env T (step env t p)"
proof -
  let ?p = "step env t p"
  have me: "thread_inv env p t" using assms(1) by (rule inv_thread)
  have eq: "?p = goto t At_publish (emit t [Ev_barrier] p)"
    using assms by (simp add: step_def)
  have own: "thread_inv env ?p t"
    using me assms(3)
    by (auto simp add: thread_inv_def eq ticketed_def initializer_def work_def)
  have oth: "thread_inv env ?p t'" if "t' \<noteq> t" for t'
    by (rule others_kept [OF assms(1) that])
       (use that me assms(3) in \<open>simp_all add: eq thread_inv_def\<close>)
  have all: "thread_inv env ?p t'" for t'
    using own oth by (cases "t' = t") auto
  show ?thesis
    by (rule process_inv_kept [OF assms(1)])
       (auto simp add: eq all [unfolded eq] ticketed_def initializer_def fun_eq_iff assms(2))
qed

lemma step_publish:
  assumes "process_inv env T p" and "\<not> aborted p" and "t_pc p t = At_publish"
  shows "process_inv env T (step env t p)"
proof -
  let ?p = "step env t p"
  have me: "thread_inv env p t" using assms(1) by (rule inv_thread)
  have mine: "Ev_fetch_and_add 0 \<in> set (t_trace p t)"
    using me assms(3) by (auto simp add: thread_inv_def initializer_def)
  have eq: "?p = goto t At_return (emit t [Ev_publish] (p\<lparr>g_init_done := 1\<rparr>))"
    using assms by (simp add: step_def)
  have own: "thread_inv env ?p t"
    using me assms(3)
    by (auto simp add: thread_inv_def eq ticketed_def initializer_def work_def)
  have oth: "thread_inv env ?p t'" if "t' \<noteq> t" for t'
    by (rule others_kept [OF assms(1) that])
       (use that me assms(3) in \<open>simp_all add: eq thread_inv_def\<close>)
  have all: "thread_inv env ?p t'" for t'
    using own oth by (cases "t' = t") auto
  show ?thesis
    by (rule process_inv_kept [OF assms(1)])
       (use mine in \<open>auto simp add: eq all [unfolded eq] ticketed_def initializer_def
          fun_eq_iff assms(2)\<close>)
qed

lemma step_wait:
  assumes "process_inv env T p" and "\<not> aborted p" and "t_pc p t = At_wait"
  shows "process_inv env T (step env t p)"
proof -
  let ?p = "step env t p"
  have me: "thread_inv env p t" using assms(1) by (rule inv_thread)
  obtain l where eq: "?p = goto t l p" and l: "l = (if g_init_done p = 0 then At_yield else At_wait_barrier)"
    using assms by (simp add: step_def)
  have own: "thread_inv env ?p t"
    using me assms(3)
    by (auto simp add: thread_inv_def eq ticketed_def initializer_def work_def l)
  have oth: "thread_inv env ?p t'" if "t' \<noteq> t" for t'
    by (rule others_kept [OF assms(1) that])
       (use that me assms(3) in \<open>simp_all add: eq thread_inv_def\<close>)
  have all: "thread_inv env ?p t'" for t'
    using own oth by (cases "t' = t") auto
  show ?thesis
    by (rule process_inv_kept [OF assms(1)])
       (auto simp add: eq all [unfolded eq] ticketed_def initializer_def fun_eq_iff assms(2))
qed

lemma step_yield:
  assumes "process_inv env T p" and "\<not> aborted p" and "t_pc p t = At_yield"
  shows "process_inv env T (step env t p)"
proof -
  let ?p = "step env t p"
  have me: "thread_inv env p t" using assms(1) by (rule inv_thread)
  have eq: "?p = goto t At_wait (emit t [Ev_yield] p)"
    using assms by (simp add: step_def)
  have own: "thread_inv env ?p t"
    using me assms(3)
    by (auto simp add: thread_inv_def eq ticketed_def initializer_def work_def)
  have oth: "thread_inv env ?p t'" if "t' \<noteq> t" for t'
    by (rule others_kept [OF assms(1) that])
       (use that me assms(3) in \<open>simp_all add: eq thread_inv_def\<close>)
  have all: "thread_inv env ?p t'" for t'
    using own oth by (cases "t' = t") auto
  show ?thesis
    by (rule process_inv_kept [OF assms(1)])
       (auto simp add: eq all [unfolded eq] ticketed_def initializer_def fun_eq_iff assms(2))
qed

lemma step_wait_barrier:
  assumes "process_inv env T p" and "\<not> aborted p" and "t_pc p t = At_wait_barrier"
  shows "process_inv env T (step env t p)"
proof -
  let ?p = "step env t p"
  have me: "thread_inv env p t" using assms(1) by (rule inv_thread)
  have eq: "?p = goto t At_return (emit t [Ev_barrier] p)"
    using assms by (simp add: step_def)
  have own: "thread_inv env ?p t"
    using me assms(3)
    by (auto simp add: thread_inv_def eq ticketed_def initializer_def work_def)
  have oth: "thread_inv env ?p t'" if "t' \<noteq> t" for t'
    by (rule others_kept [OF assms(1) that])
       (use that me assms(3) in \<open>simp_all add: eq thread_inv_def\<close>)
  have all: "thread_inv env ?p t'" for t'
    using own oth by (cases "t' = t") auto
  show ?thesis
    by (rule process_inv_kept [OF assms(1)])
       (auto simp add: eq all [unfolded eq] ticketed_def initializer_def fun_eq_iff assms(2))
qed

lemma step_return:
  assumes "process_inv env T p" and "\<not> aborted p" and "t_pc p t = At_return"
  shows "process_inv env T (step env t p)"
proof -
  let ?p = "step env t p"
  have me: "thread_inv env p t" using assms(1) by (rule inv_thread)
  have eq: "?p = goto t At_check_done p"
    using assms by (simp add: step_def)
  have own: "thread_inv env ?p t"
    using me assms(3)
    by (auto simp add: thread_inv_def eq ticketed_def initializer_def work_def)
  have oth: "thread_inv env ?p t'" if "t' \<noteq> t" for t'
    by (rule others_kept [OF assms(1) that])
       (use that me assms(3) in \<open>simp_all add: eq thread_inv_def\<close>)
  have all: "thread_inv env ?p t'" for t'
    using own oth by (cases "t' = t") auto
  show ?thesis
    by (rule process_inv_kept [OF assms(1)])
       (auto simp add: eq all [unfolded eq] ticketed_def initializer_def fun_eq_iff assms(2))
qed

lemma resolved_table_snoc:
  "resolved_table env (hs @ [(h, symb)]) tab = (resolved_table env hs tab)(h := dlsym_next env symb)"
  by (simp add: resolved_table_def)

lemma resolved_events_snoc:
  "resolved_events env (hs @ [(h, symb)]) =
     resolved_events env hs @ [Ev_dlsym symb, Ev_assign h (dlsym_next env symb)]"
  by (simp add: resolved_events_def)

lemma step_tas_init:
  assumes "process_inv env T p" and "\<not> aborted p" and "t_pc p t = At_tas_init"
  shows "process_inv env T (step env t p)"
proof -
  let ?p = "step env t p"
  have me: "thread_inv env p t" using assms(1) by (rule inv_thread)
  have mine: "initializer p t" "g_init_done p = 0"
    using me assms(3) by (auto simp add: thread_inv_def)
  obtain ret e w where r: "tas_init env (t_errno p t, g_world p) = (ret, e, w)"
    by (cases "tas_init env (t_errno p t, g_world p)")
  let ?q = "p\<lparr>g_world := w, t_errno := (t_errno p)(t := e)\<rparr>"
  have eq: "?p = (if ret \<noteq> 0 then emit t [Ev_tas_init, Ev_abort] (?q\<lparr>aborted := True\<rparr>)
                  else goto t At_clear_in_init (emit t [Ev_tas_init] ?q))"
    using assms r by (simp add: step_def Let_def)
  have own: "thread_inv env ?p t"
    using me assms(3)
    by (auto simp add: thread_inv_def eq ticketed_def initializer_def work_def)
  have oth: "thread_inv env ?p t'" if "t' \<noteq> t" for t'
    by (rule others_kept [OF assms(1) that]) (use that in \<open>simp_all add: eq\<close>)
  have all: "thread_inv env ?p t'" for t'
    using own oth by (cases "t' = t") auto
  show ?thesis
    by (rule process_inv_kept [OF assms(1)])
       (use mine in \<open>auto simp add: eq all [unfolded eq] ticketed_def initializer_def
          fun_eq_iff assms(2)\<close>)
qed

lemma step_bind:
  assumes "process_inv env T p" and "\<not> aborted p" and "t_pc p t = At_bind k"
  shows "process_inv env T (step env t p)"
proof -
  let ?p = "step env t p"
  have me: "thread_inv env p t" using assms(1) by (rule inv_thread)
  have mine: "initializer p t" "g_init_done p = 0" "k < length symbols"
    using me assms(3) by (auto simp add: thread_inv_def)
  obtain h symb where hs: "symbols ! k = (h, symb)"
    by (cases "symbols ! k")
  have tk: "take (Suc k) symbols = take k symbols @ [(h, symb)]"
    using mine(3) hs by (simp add: take_Suc_conv_app_nth)
  obtain l where l: "l = (if Suc k < length symbols then At_bind (Suc k) else At_tas_init)"
    by simp
  have bl: "bound l = Suc k" and pl: "progress env l = resolved_events env (take (Suc k) symbols)"
    using mine(3) by (auto simp add: l)
  have eq: "?p = (if dlsym_next env symb = NULL
                  then emit t [Ev_dlsym symb, Ev_fprintf (diagnostic symb), Ev_abort]
                         (p\<lparr>aborted := True\<rparr>)
                  else goto t l (emit t [Ev_dlsym symb, Ev_assign h (dlsym_next env symb)]
                         (p\<lparr>g_libc := (g_libc p)(h := dlsym_next env symb)\<rparr>)))"
    using assms mine(3) hs by (simp add: step_def Let_def l)
  have own: "thread_inv env ?p t"
  proof (cases "dlsym_next env symb = NULL")
    case True
    then show ?thesis
      using me assms(3)
      by (auto simp add: thread_inv_def eq ticketed_def initializer_def work_def)
  next
    case False
    have pcl: "t_pc ?p t = l" using False by (simp add: eq)
    have "case l of At_bind k \<Rightarrow> k < length symbols | _ \<Rightarrow> True"
      by (simp add: l)
    then show ?thesis
      using me assms(3) False mine(3)
      unfolding thread_inv_def pcl bl pl tk resolved_table_snoc resolved_events_snoc
      by (auto simp add: eq l ticketed_def initializer_def work_def)
  qed
  have oth: "thread_inv env ?p t'" if "t' \<noteq> t" for t'
    by (rule others_kept [OF assms(1) that]) (use that mine in \<open>simp_all add: eq\<close>)
  have all: "thread_inv env ?p t'" for t'
    using own oth by (cases "t' = t") auto
  show ?thesis
    by (rule process_inv_kept [OF assms(1)])
       (use mine in \<open>auto simp add: eq all [unfolded eq] ticketed_def initializer_def
          fun_eq_iff assms(2)\<close>)
qed

lemma inv_counter_zero:
  assumes "process_inv env T p"
  shows "g_init_cnt p = 0 \<longleftrightarrow> ticketed p = {}"
proof -
  have "g_init_cnt p = of_nat (card (ticketed p))"
    using assms by (simp add: process_inv_def)
  then have "g_init_cnt p = 0 \<longleftrightarrow> card (ticketed p) = 0"
    using counter_zero [OF inv_card [OF assms]] by simp
  then show ?thesis
    using inv_finite [OF assms] by simp
qed

lemma step_fetch_and_add:
  assumes "process_inv env T p" and "\<not> aborted p" and "t_pc p t = At_fetch_and_add"
    and "t \<in> T"
  shows "process_inv env T (step env t p)"
proof -
  let ?p = "step env t p"
  have me: "thread_inv env p t" using assms(1) by (rule inv_thread)
  have mine: "t_in_init p t = 0" "t \<notin> ticketed p"
    using me assms(3) by (auto simp add: thread_inv_def)
  have notin: "\<not> initializer p t"
    using mine(2) initializer_ticketed by blast
  have quiet: "work p t = []" "\<forall>e \<in> set (t_trace p t). \<not> is_init_event e"
    using me mine(2) notin by (auto simp add: thread_inv_def)
  obtain l where l: "l = (if g_init_cnt p = 0 then At_set_in_init else At_wait)"
    by simp
  have eq: "?p = goto t l (emit t [Ev_fetch_and_add (g_init_cnt p)]
              (p\<lparr>g_init_cnt := g_init_cnt p + 1\<rparr>))"
    using assms by (simp add: step_def Let_def l)
  have tk: "ticketed ?p = insert t (ticketed p)"
    by (auto simp add: eq ticketed_def)
  have ini: "initializer ?p t' \<longleftrightarrow> initializer p t' \<or> t' = t \<and> g_init_cnt p = 0" for t'
    using notin by (auto simp add: eq initializer_def)
  have zero: "g_init_cnt p = 0 \<longleftrightarrow> ticketed p = {}"
    by (rule inv_counter_zero [OF assms(1)])
  have none: "\<not> initializer p t'" if "g_init_cnt p = 0" for t'
    using that zero initializer_ticketed [of p t'] by auto
  have fresh_tab: "g_libc p = (\<lambda>h. NULL)" "g_init_done p = 0" if "g_init_cnt p = 0"
    using assms(1) none [OF that] by (auto simp add: process_inv_def)
  have own: "thread_inv env ?p t"
  proof (cases "g_init_cnt p = 0")
    case True
    have pcl: "t_pc ?p t = At_set_in_init" using True by (simp add: eq l)
    have w: "work ?p t = [Ev_fetch_and_add 0]"
      using quiet(1) True by (simp add: eq work_def)
    show ?thesis
      unfolding thread_inv_def pcl
      using True mine(1) fresh_tab [OF True] w
      by (simp add: ini) (simp add: eq resolved_table_def)
  next
    case False
    have pcl: "t_pc ?p t = At_wait" using False by (simp add: eq l)
    show ?thesis
      unfolding thread_inv_def pcl
      using False mine(1) notin quiet(2)
      by (simp add: ini tk) (simp add: eq)
  qed
  have oth: "thread_inv env ?p t'" if "t' \<noteq> t" for t'
    by (rule others_kept [OF assms(1) that]) (use that in \<open>simp_all add: eq\<close>)
  have all: "thread_inv env ?p t'" for t'
    using own oth by (cases "t' = t") auto
  have fin: "finite (ticketed p)" by (rule inv_finite [OF assms(1)])
  have c1: "g_init_cnt ?p = g_init_cnt p + 1" by (simp add: eq)
  have c0: "g_init_cnt p = of_nat (card (ticketed p))"
    using assms(1) by (simp add: process_inv_def)
  have cnt: "g_init_cnt ?p = of_nat (card (ticketed ?p))"
    unfolding c1 tk c0 using fin mine(2) by simp
  have uniq: "initializer ?p a \<and> initializer ?p b \<longrightarrow> a = b" for a b
    using assms(1) none by (auto simp add: ini process_inv_def)
  have ex: "\<exists>t. initializer ?p t"
  proof (cases "g_init_cnt p = 0")
    case True
    then show ?thesis using ini by blast
  next
    case False
    then have "ticketed p \<noteq> {}" using zero by simp
    then obtain t0 where "initializer p t0" using assms(1) by (auto simp add: process_inv_def)
    then show ?thesis using ini by blast
  qed
  have gl: "g_libc ?p = g_libc p" "aborted ?p = aborted p" "g_init_done ?p = g_init_done p"
    by (simp_all add: eq)
  show ?thesis
    unfolding process_inv_def gl
    using assms(1) assms(4) cnt uniq ex all
    by (auto simp add: tk process_inv_def ini)
qed

subsection \<open>Runs\<close>

lemma step_inv:
  assumes "process_inv env T p" and "t \<in> T"
  shows "process_inv env T (step env t p)"
proof (cases "aborted p")
  case True
  then show ?thesis using assms(1) by (simp add: step_def)
next
  case False
  show ?thesis
    by (cases "t_pc p t")
       (simp_all add: assms False step_check_done step_check_in_init step_fetch_and_add
          step_set_in_init step_bind step_tas_init step_clear_in_init step_barrier
          step_publish step_wait step_yield step_wait_barrier step_return)
qed

lemma run_inv:
  assumes "process_inv env T p" and "set sched \<subseteq> T"
  shows "process_inv env T (run env sched p)"
  using assms
  by (induction sched arbitrary: p) (simp_all add: step_inv)

lemma boot_inv:
  assumes "finite T" and "card T < 2 ^ 32"
  shows "process_inv env T (boot w)"
  using assms
  by (simp add: process_inv_def thread_inv_def boot_def ticketed_def initializer_def work_def)

lemma run_append: "run env (xs @ ys) p = run env ys (run env xs p)"
  by (induction xs arbitrary: p) simp_all

lemma step_done_kept: "g_init_done p \<noteq> 0 \<Longrightarrow> g_init_done (step env t p) \<noteq> 0"
  by (simp add: step_def Let_def split: pc.splits prod.splits)

lemma run_done_kept: "g_init_done p \<noteq> 0 \<Longrightarrow> g_init_done (run env sched p) \<noteq> 0"
  by (induction sched arbitrary: p) (simp_all add: step_done_kept)

lemma step_initializer_kept: "initializer p t \<Longrightarrow> initializer (step env t' p) t"
  by (auto simp add: step_def Let_def initializer_def split: pc.splits prod.splits)

lemma run_initializer_kept: "initializer p t \<Longrightarrow> initializer (run env sched p) t"
  by (induction sched arbitrary: p) (simp_all add: step_initializer_kept)

lemma inv_ready:
  assumes "process_inv env T p" and "g_init_done p \<noteq> 0"
  shows "\<exists>t. initializer p t \<and> work p t = initialization env \<and>
           g_libc p = resolved_table env symbols (\<lambda>h. NULL) \<and>
           (\<forall>(h, symb) \<in> set symbols. dlsym_next env symb \<noteq> NULL) \<and> \<not> aborted p"
proof -
  obtain t where t: "initializer p t"
    using assms by (auto simp add: process_inv_def)
  have na: "\<not> aborted p" using assms by (auto simp add: process_inv_def)
  have "thread_inv env p t" using assms(1) by (rule inv_thread)
  then have "work p t = initialization env \<and>
           g_libc p = resolved_table env symbols (\<lambda>h. NULL) \<and>
           (\<forall>(h, symb) \<in> set symbols. dlsym_next env symb \<noteq> NULL)"
    using t na assms(2) initializer_ticketed [OF t]
    by (cases "t_pc p t") (simp_all add: thread_inv_def initialization_def)
  then show ?thesis using t na by blast
qed




lemma table_full:
  "\<forall>(h, symb) \<in> set symbols. resolved_table env symbols tab h = dlsym_next env symb"
  by (simp add: symbols_def resolved_table_def)

lemma table_covers: "\<exists>symb. (h, symb) \<in> set symbols"
  by (cases h) (simp_all add: symbols_def)

lemma reach_inv:
  assumes "card (set (sched @ later)) < 2 ^ 32"
  shows "process_inv env (set (sched @ later)) (run env sched (boot w))"
    and "process_inv env (set (sched @ later)) (run env later (run env sched (boot w)))"
proof -
  have b: "process_inv env (set (sched @ later)) (boot w)"
    using assms by (intro boot_inv) simp_all
  show "process_inv env (set (sched @ later)) (run env sched (boot w))"
    using b by (rule run_inv) simp
  then show "process_inv env (set (sched @ later)) (run env later (run env sched (boot w)))"
    by (rule run_inv) simp
qed


text \<open>
  C8. In every state of such a run in which \<open>init_done\<close> is set: one thread has
  done, in this order, the 22 assignments of \<open>init\<close> in the order of the source, the
  call of \<open>tas_init\<close>, the barrier and the store to \<open>init_done\<close>; every entry of
  the table holds what \<open>dlsym\<close> gave for its name, and none is \<open>NULL\<close>. However
  the run goes on, that thread does nothing more than enter \<open>ensure_init\<close>, no other
  thread executes a line of \<open>init\<close>, and the table stays as it is.
\<close>

theorem table_complete_when_ready:
  fixes env :: "'w env" and w :: 'w
  assumes "card (set (sched @ later)) < 2 ^ 32"
  defines "p \<equiv> run env sched (boot w)"
  defines "p' \<equiv> run env later p"
  shows "g_init_done p \<noteq> 0 \<longrightarrow>
           (\<exists>t. work p t = initialization env \<and> work p' t = initialization env \<and>
                (\<forall>t'. t' \<noteq> t \<longrightarrow> (\<forall>e \<in> set (t_trace p' t'). \<not> is_init_event e))) \<and>
           (\<forall>(h, symb) \<in> set symbols. g_libc p h = dlsym_next env symb) \<and>
           (\<forall>h. g_libc p h \<noteq> NULL) \<and>
           g_libc p' = g_libc p"
proof
  assume d: "g_init_done p \<noteq> 0"
  have i: "process_inv env (set (sched @ later)) p"
    unfolding p_def by (rule reach_inv [OF assms(1)])
  have i': "process_inv env (set (sched @ later)) p'"
    unfolding p'_def p_def by (rule reach_inv [OF assms(1)])
  have d': "g_init_done p' \<noteq> 0"
    unfolding p'_def using d by (rule run_done_kept)
  obtain t where t: "initializer p t" "work p t = initialization env"
    "g_libc p = resolved_table env symbols (\<lambda>h. NULL)"
    "\<forall>(h, symb) \<in> set symbols. dlsym_next env symb \<noteq> NULL"
    using inv_ready [OF i d] by blast
  obtain t' where t': "initializer p' t'" "work p' t' = initialization env"
    "g_libc p' = resolved_table env symbols (\<lambda>h. NULL)"
    using inv_ready [OF i' d'] by blast
  have "initializer p' t"
    unfolding p'_def using t(1) by (rule run_initializer_kept)
  then have same: "t' = t"
    using t'(1) i' by (auto simp add: process_inv_def)
  have quiet: "\<forall>e \<in> set (t_trace p' u). \<not> is_init_event e" if "u \<noteq> t" for u
  proof -
    have "\<not> initializer p' u"
      using inv_others [OF i' \<open>initializer p' t\<close> that] .
    then show ?thesis
      using inv_thread [OF i', of u] by (simp add: thread_inv_def)
  qed
  have full: "\<forall>(h, symb) \<in> set symbols. g_libc p h = dlsym_next env symb"
    unfolding t(3) by (rule table_full)
  have nonnull: "g_libc p h \<noteq> NULL" for h
  proof -
    obtain symb where "(h, symb) \<in> set symbols" using table_covers by blast
    then show ?thesis using full t(4) by fastforce
  qed
  show "(\<exists>t. work p t = initialization env \<and> work p' t = initialization env \<and>
                (\<forall>t'. t' \<noteq> t \<longrightarrow> (\<forall>e \<in> set (t_trace p' t'). \<not> is_init_event e))) \<and>
           (\<forall>(h, symb) \<in> set symbols. g_libc p h = dlsym_next env symb) \<and>
           (\<forall>h. g_libc p h \<noteq> NULL) \<and>
           g_libc p' = g_libc p"
    using t(2) t'(2) same quiet full nonnull t(3) t'(3) by auto
qed

subsection \<open>The sample schedule\<close>

lemmas run_defs = two_threads_def boot_def step_def goto_def emit_def stranger_def symbols_def
  NULL_def Let_def

lemma two_threads_set: "set two_threads = {0, 1}"
  by (auto simp add: two_threads_def)

lemma two_threads_final:
  "run stranger two_threads (boot 0) =
     \<lparr>g_init_cnt = 2, g_init_done = 1, g_libc = resolved_table stranger symbols (\<lambda>h. NULL),
      g_world = 0, aborted = False,
      t_pc = (\<lambda>t. At_check_done)(0 := At_check_done, 1 := At_return),
      t_in_init = (\<lambda>t. 0)(0 := 0), t_errno = (\<lambda>t. 0)(0 := 0),
      t_trace = (\<lambda>t. [])
        (0 := Ev_ensure_init # initialization stranger,
         1 := [Ev_ensure_init, Ev_fetch_and_add 1, Ev_yield, Ev_barrier, Ev_ensure_init])\<rparr>"
  by (simp add: run_defs initialization_def resolved_events_def resolved_table_def)


theorem table_complete_when_ready_witness:
  "card (set (two_threads @ [1, 0, 1, 0])) < (2::nat) ^ 32 \<and>
   g_init_done (run stranger two_threads (boot 0)) \<noteq> 0 \<and>
   work (run stranger two_threads (boot 0)) 0 = initialization stranger \<and>
   g_libc (run stranger two_threads (boot 0)) = (\<lambda>h. 0x7F00) \<and>
   g_libc (run stranger [1, 0, 1, 0] (run stranger two_threads (boot 0))) = (\<lambda>h. 0x7F00)"
proof -
  have "set (two_threads @ [1, 0, 1, 0]) = {0, 1}"
    by (auto simp add: two_threads_set)
  then have c: "card (set (two_threads @ [1, 0, 1, 0])) < (2::nat) ^ 32"
    by simp
  have d: "g_init_done (run stranger two_threads (boot 0)) \<noteq> 0"
    by (simp add: two_threads_final)
  have w: "work (run stranger two_threads (boot 0)) 0 = initialization stranger"
    by (simp add: two_threads_final work_def initialization_def resolved_events_def symbols_def)
  have "resolved_table stranger symbols (\<lambda>h. NULL) h = 0x7F00" for h
    by (cases h) (simp_all add: resolved_table_def symbols_def stranger_def)
  then have g: "g_libc (run stranger two_threads (boot 0)) = (\<lambda>h. 0x7F00)"
    by (simp add: two_threads_final fun_eq_iff)
  have "g_libc (run stranger [1, 0, 1, 0] (run stranger two_threads (boot 0))) =
        g_libc (run stranger two_threads (boot 0))"
    using table_complete_when_ready [OF c, of stranger 0] d by blast
  with g have l: "g_libc (run stranger [1, 0, 1, 0] (run stranger two_threads (boot 0))) =
      (\<lambda>h. 0x7F00)"
    by simp
  show ?thesis
    by (intro conjI c d w g l)
qed

section \<open>Failure of the initialization\<close>

lemma step_aborted: "aborted p \<Longrightarrow> step env t p = p"
  by (simp add: step_def)

lemma run_aborted: "aborted p \<Longrightarrow> run env ts p = p"
  by (induction ts) (simp_all add: step_aborted)

lemma inv_table:
  assumes "g_libc p = resolved_table env symbols (\<lambda>h. NULL)"
    and "\<forall>(h, symb) \<in> set symbols. dlsym_next env symb \<noteq> NULL"
  shows "(\<forall>h. g_libc p h \<noteq> NULL) \<and> (\<forall>(h, symb) \<in> set symbols. g_libc p h = dlsym_next env symb)"
proof -
  have full: "\<forall>(h, symb) \<in> set symbols. g_libc p h = dlsym_next env symb"
    unfolding assms(1) by (rule table_full)
  have "g_libc p h \<noteq> NULL" for h
  proof -
    obtain symb where "(h, symb) \<in> set symbols" using table_covers by blast
    then show ?thesis using full assms(2) by fastforce
  qed
  then show ?thesis using full by blast
qed

lemma inv_returning:
  assumes "process_inv env T p" and "t_pc p t = At_return"
  shows "\<not> aborted p \<and> (\<forall>h. g_libc p h \<noteq> NULL) \<and>
         (\<forall>(h, symb) \<in> set symbols. g_libc p h = dlsym_next env symb)"
proof -
  have d: "g_init_done p \<noteq> 0"
    using inv_thread [OF assms(1), of t] assms(2) by (simp add: thread_inv_def)
  obtain t0 where "g_libc p = resolved_table env symbols (\<lambda>h. NULL)"
    "\<forall>(h, symb) \<in> set symbols. dlsym_next env symb \<noteq> NULL" "\<not> aborted p"
    using inv_ready [OF assms(1) d] by blast
  then show ?thesis using inv_table by blast
qed

lemma inv_in_tas_init:
  assumes "process_inv env T p" and "t_pc p t = At_tas_init"
  shows "(\<forall>h. g_libc p h \<noteq> NULL) \<and>
         (\<forall>(h, symb) \<in> set symbols. g_libc p h = dlsym_next env symb)"
proof -
  have "g_libc p = resolved_table env symbols (\<lambda>h. NULL) \<and>
      (\<forall>(h, symb) \<in> set symbols. dlsym_next env symb \<noteq> NULL)"
    using inv_thread [OF assms(1), of t] assms(2) by (simp add: thread_inv_def)
  then show ?thesis using inv_table by blast
qed

lemma inv_aborted:
  assumes "process_inv env T p" and "aborted p"
  shows "g_init_done p = 0 \<and> (\<forall>t. t_pc p t \<noteq> At_return)"
proof -
  have d: "g_init_done p = 0" using assms by (simp add: process_inv_def)
  have "t_pc p t \<noteq> At_return" for t
    using inv_thread [OF assms(1), of t] d by (auto simp add: thread_inv_def)
  then show ?thesis using d by blast
qed

lemma step_bind_aborts:
  assumes "\<not> aborted p" and "t_pc p t = At_bind k" and "k < length symbols"
    and "dlsym_next env (snd (symbols ! k)) = NULL"
  shows "aborted (step env t p) \<and> g_libc (step env t p) = g_libc p \<and>
         g_init_done (step env t p) = g_init_done p"
  using assms by (cases "symbols ! k") (simp add: step_def)

lemma step_tas_init_aborts:
  assumes "\<not> aborted p" and "t_pc p t = At_tas_init"
    and "fst (tas_init env (t_errno p t, g_world p)) \<noteq> 0"
  shows "aborted (step env t p) \<and> g_libc (step env t p) = g_libc p \<and>
         g_init_done (step env t p) = g_init_done p"
  using assms by (cases "tas_init env (t_errno p t, g_world p)") (simp add: step_def)

text \<open>
  C7, as the code has it. If \<open>dlsym\<close> gives \<open>NULL\<close> for a name, the names before
  it having been resolved, the process aborts there, after one line on \<open>stderr\<close> that
  names the symbol: no later name is looked up, \<open>tas_init\<close> is not called. If every
  name is resolved and \<open>tas_init\<close> returns nonzero, the process aborts there, and this
  file writes nothing to \<open>stderr\<close>. In both cases nothing is tried twice,
  \<open>init_done\<close> stays zero, the table is left as it was, and the interposed call that
  ran \<open>ensure_init\<close> makes no backend call; after the abort no thread takes a step. In
  no thread does an operation go on from \<open>ensure_init\<close> with a table resolved in part:
  in every interleaving of fewer than \<open>2\<^sup>3\<^sup>2\<close> threads, a thread that returns from
  \<open>ensure_init\<close> is in a process that has not aborted and finds every pointer of the
  table set to what \<open>dlsym\<close> gave, none \<open>NULL\<close>, and so does \<open>tas_init\<close> when it
  is called.
\<close>

theorem startup_failure_aborts:
  fixes env :: "'w env" and w :: 'w and sched :: "tid list"
  defines "p \<equiv> run env sched (boot w)"
  shows
   "(init_done s = 0 \<and> in_init s = 0 \<and> init_cnt s = 0 \<and>
     symbols = pre @ (h, symb) # post \<and>
     (\<forall>(h', symb') \<in> set pre. dlsym_next env symb' \<noteq> NULL) \<and> dlsym_next env symb = NULL \<longrightarrow>
       ensure_init env n s =
         Aborted (s\<lparr>init_cnt := 1, in_init := 1, libc := resolved_table env pre (libc s),
           trace := trace s @ [Ev_ensure_init, Ev_fetch_and_add 0] @ resolved_events env pre @
             [Ev_dlsym symb, Ev_fprintf (diagnostic symb), Ev_abort]\<rparr>)) \<and>
    (init_done s = 0 \<and> in_init s = 0 \<and> init_cnt s = 0 \<and>
     (\<forall>(h', symb') \<in> set symbols. dlsym_next env symb' \<noteq> NULL) \<and>
     tas_init env (errno s, world s) = (ret, e, w') \<and> ret \<noteq> 0 \<longrightarrow>
       ensure_init env n s =
         Aborted (s\<lparr>errno := e, init_cnt := 1, in_init := 1,
           libc := resolved_table env symbols (libc s), world := w',
           trace := trace s @ [Ev_ensure_init, Ev_fetch_and_add 0] @
             resolved_events env symbols @ [Ev_tas_init, Ev_abort]\<rparr>)) \<and>
    (\<forall>(a :: va_list call) st. \<not> multiplexing a \<and> ensure_init env n s = Aborted st \<longrightarrow>
       interpose env n a s = Aborted st) \<and>
    (card (set sched) < 2 ^ 32 \<longrightarrow>
       (\<forall>t. t_pc p t = At_return \<longrightarrow>
          \<not> aborted p \<and> (\<forall>h. g_libc p h \<noteq> NULL) \<and>
          (\<forall>(h, symb) \<in> set symbols. g_libc p h = dlsym_next env symb)) \<and>
       (\<forall>t. t_pc p t = At_tas_init \<longrightarrow>
          (\<forall>h. g_libc p h \<noteq> NULL) \<and>
          (\<forall>(h, symb) \<in> set symbols. g_libc p h = dlsym_next env symb)) \<and>
       (aborted p \<longrightarrow> g_init_done p = 0 \<and> (\<forall>t. t_pc p t \<noteq> At_return))) \<and>
    (\<forall>t k. \<not> aborted p \<and> t_pc p t = At_bind k \<and> k < length symbols \<and>
        dlsym_next env (snd (symbols ! k)) = NULL \<longrightarrow>
          aborted (step env t p) \<and> g_libc (step env t p) = g_libc p \<and>
          g_init_done (step env t p) = g_init_done p) \<and>
    (\<forall>t. \<not> aborted p \<and> t_pc p t = At_tas_init \<and>
        fst (tas_init env (t_errno p t, g_world p)) \<noteq> 0 \<longrightarrow>
          aborted (step env t p) \<and> g_libc (step env t p) = g_libc p \<and>
          g_init_done (step env t p) = g_init_done p) \<and>
    (aborted p \<longrightarrow> run env later p = p)"
proof (intro conjI)
  show "init_done s = 0 \<and> in_init s = 0 \<and> init_cnt s = 0 \<and>
     symbols = pre @ (h, symb) # post \<and>
     (\<forall>(h', symb') \<in> set pre. dlsym_next env symb' \<noteq> NULL) \<and> dlsym_next env symb = NULL \<longrightarrow>
       ensure_init env n s =
         Aborted (s\<lparr>init_cnt := 1, in_init := 1, libc := resolved_table env pre (libc s),
           trace := trace s @ [Ev_ensure_init, Ev_fetch_and_add 0] @ resolved_events env pre @
             [Ev_dlsym symb, Ev_fprintf (diagnostic symb), Ev_abort]\<rparr>)"
    by (simp add: ensure_init_def Let_def init_symbol_fails [of pre h symb post] obind_def
          log_def)
next
  show "init_done s = 0 \<and> in_init s = 0 \<and> init_cnt s = 0 \<and>
     (\<forall>(h', symb') \<in> set symbols. dlsym_next env symb' \<noteq> NULL) \<and>
     tas_init env (errno s, world s) = (ret, e, w') \<and> ret \<noteq> 0 \<longrightarrow>
       ensure_init env n s =
         Aborted (s\<lparr>errno := e, init_cnt := 1, in_init := 1,
           libc := resolved_table env symbols (libc s), world := w',
           trace := trace s @ [Ev_ensure_init, Ev_fetch_and_add 0] @
             resolved_events env symbols @ [Ev_tas_init, Ev_abort]\<rparr>)"
  proof
    assume a: "init_done s = 0 \<and> in_init s = 0 \<and> init_cnt s = 0 \<and>
     (\<forall>(h', symb') \<in> set symbols. dlsym_next env symb' \<noteq> NULL) \<and>
     tas_init env (errno s, world s) = (ret, e, w') \<and> ret \<noteq> 0"
    then have r: "\<forall>(h', symb') \<in> set symbols. dlsym_next env symb' \<noteq> NULL" by simp
    show "ensure_init env n s =
         Aborted (s\<lparr>errno := e, init_cnt := 1, in_init := 1,
           libc := resolved_table env symbols (libc s), world := w',
           trace := trace s @ [Ev_ensure_init, Ev_fetch_and_add 0] @
             resolved_events env symbols @ [Ev_tas_init, Ev_abort]\<rparr>)"
      using a
      by (simp add: ensure_init_def Let_def init_resolved [OF r] start_tas_def obind_def
            log_def)
  qed
next
  show "\<forall>(a :: va_list call) st. \<not> multiplexing a \<and> ensure_init env n s = Aborted st \<longrightarrow>
       interpose env n a s = Aborted st"
    by (simp add: ensure_init_aborts)
next
  show "card (set sched) < 2 ^ 32 \<longrightarrow>
       (\<forall>t. t_pc p t = At_return \<longrightarrow>
          \<not> aborted p \<and> (\<forall>h. g_libc p h \<noteq> NULL) \<and>
          (\<forall>(h, symb) \<in> set symbols. g_libc p h = dlsym_next env symb)) \<and>
       (\<forall>t. t_pc p t = At_tas_init \<longrightarrow>
          (\<forall>h. g_libc p h \<noteq> NULL) \<and>
          (\<forall>(h, symb) \<in> set symbols. g_libc p h = dlsym_next env symb)) \<and>
       (aborted p \<longrightarrow> g_init_done p = 0 \<and> (\<forall>t. t_pc p t \<noteq> At_return))"
  proof
    assume "card (set sched) < 2 ^ 32"
    then have "card (set (sched @ [])) < 2 ^ 32" by simp
    then have i: "process_inv env (set (sched @ [])) p"
      unfolding p_def by (rule reach_inv)
    show "(\<forall>t. t_pc p t = At_return \<longrightarrow>
          \<not> aborted p \<and> (\<forall>h. g_libc p h \<noteq> NULL) \<and>
          (\<forall>(h, symb) \<in> set symbols. g_libc p h = dlsym_next env symb)) \<and>
       (\<forall>t. t_pc p t = At_tas_init \<longrightarrow>
          (\<forall>h. g_libc p h \<noteq> NULL) \<and>
          (\<forall>(h, symb) \<in> set symbols. g_libc p h = dlsym_next env symb)) \<and>
       (aborted p \<longrightarrow> g_init_done p = 0 \<and> (\<forall>t. t_pc p t \<noteq> At_return))"
      using inv_returning [OF i] inv_in_tas_init [OF i] inv_aborted [OF i] by blast
  qed
next
  show "\<forall>t k. \<not> aborted p \<and> t_pc p t = At_bind k \<and> k < length symbols \<and>
        dlsym_next env (snd (symbols ! k)) = NULL \<longrightarrow>
          aborted (step env t p) \<and> g_libc (step env t p) = g_libc p \<and>
          g_init_done (step env t p) = g_init_done p"
    using step_bind_aborts by blast
next
  show "\<forall>t. \<not> aborted p \<and> t_pc p t = At_tas_init \<and>
        fst (tas_init env (t_errno p t, g_world p)) \<noteq> 0 \<longrightarrow>
          aborted (step env t p) \<and> g_libc (step env t p) = g_libc p \<and>
          g_init_done (step env t p) = g_init_done p"
    using step_tas_init_aborts by blast
next
  show "aborted p \<longrightarrow> run env later p = p"
    by (simp add: run_aborted)
qed


theorem startup_failure_aborts_witness:
  "init_done fresh = 0 \<and> in_init fresh = 0 \<and> init_cnt fresh = 0 \<and>
   symbols = take 6 symbols @ (libc_accept4, ''accept4'') # drop 7 symbols \<and>
   dlsym_next no_accept4 ''accept4'' = NULL \<and>
   ensure_init no_accept4 0 fresh =
     Aborted (fresh\<lparr>init_cnt := 1, in_init := 1,
       libc := (\<lambda>h. if h \<in> {libc_socket, libc_close, libc_shutdown, libc_bind, libc_connect,
                                libc_listen} then 0x7F00 else NULL),
       trace := [Ev_ensure_init, Ev_fetch_and_add 0,
         Ev_dlsym ''socket'', Ev_assign libc_socket 0x7F00,
         Ev_dlsym ''close'', Ev_assign libc_close 0x7F00,
         Ev_dlsym ''shutdown'', Ev_assign libc_shutdown 0x7F00,
         Ev_dlsym ''bind'', Ev_assign libc_bind 0x7F00,
         Ev_dlsym ''connect'', Ev_assign libc_connect 0x7F00,
         Ev_dlsym ''listen'', Ev_assign libc_listen 0x7F00,
         Ev_dlsym ''accept4'', Ev_fprintf (diagnostic ''accept4''), Ev_abort]\<rparr>) \<and>
   is_aborted (interpose no_accept4 0 (Close 5) fresh) \<and>
   tas_init failing_start (errno fresh, world fresh) = (- 1, 0, 0) \<and>
   ensure_init failing_start 0 fresh =
     Aborted (fresh\<lparr>init_cnt := 1, in_init := 1, libc := (\<lambda>h. 0x7F00),
       trace := [Ev_ensure_init, Ev_fetch_and_add 0] @ resolved_events failing_start symbols @
         [Ev_tas_init, Ev_abort]\<rparr>) \<and>
   is_aborted (interpose failing_start 0 (Close 5) fresh) \<and>
   card (set two_threads) < (2::nat) ^ 32 \<and>
   t_pc (run stranger two_threads (boot 0)) 1 = At_return \<and>
   \<not> aborted (run stranger two_threads (boot 0)) \<and>
   g_libc (run stranger two_threads (boot 0)) libc_accept4 \<noteq> NULL \<and>
   \<not> aborted (run no_accept4 [0, 0, 0, 0, 0, 0, 0, 0, 0, 0] (boot 0)) \<and>
   t_pc (run no_accept4 [0, 0, 0, 0, 0, 0, 0, 0, 0, 0] (boot 0)) 0 = At_bind 6 \<and>
   dlsym_next no_accept4 (snd (symbols ! 6)) = NULL \<and>
   aborted (step no_accept4 0 (run no_accept4 [0, 0, 0, 0, 0, 0, 0, 0, 0, 0] (boot 0))) \<and>
   aborted (run no_accept4 (solo 0) (boot 0)) \<and>
   g_init_done (run no_accept4 (solo 0) (boot 0)) = 0 \<and>
   run no_accept4 [0, 1] (run no_accept4 (solo 0) (boot 0)) = run no_accept4 (solo 0) (boot 0)"
proof -
  have tab: "resolved_table failing_start symbols (\<lambda>h. NULL) = (\<lambda>h. 0x7F00)"
    by (rule ext, case_tac h)
       (simp_all add: resolved_table_def symbols_def failing_start_def stranger_def)
  have tab6: "resolved_table no_accept4 (take 6 symbols) (\<lambda>h. NULL) =
      (\<lambda>h. if h \<in> {libc_socket, libc_close, libc_shutdown, libc_bind, libc_connect,
                                libc_listen} then 0x7F00 else NULL)"
    by (rule ext, case_tac h)
       (simp_all add: resolved_table_def symbols_def no_accept4_def stranger_def)
  note a = startup_failure_aborts [where s = fresh and pre = "take 6 symbols"
        and h = libc_accept4 and symb = "''accept4''" and post = "drop 7 symbols"
        and env = no_accept4 and n = 0 and w = 0 and sched = "[0, 0, 0, 0, 0, 0, 0, 0, 0, 0]"]
  note b = startup_failure_aborts [where s = fresh and env = failing_start and n = 0
        and ret = "- 1" and e = 0 and w' = 0 and w = 0 and sched = two_threads]
  note c = startup_failure_aborts [where env = no_accept4 and w = 0 and sched = "solo 0"
        and later = "[0, 1]" and s = fresh and n = 0]
  note d = startup_failure_aborts [where env = stranger and w = 0 and sched = two_threads
        and s = fresh and n = 0]
  have a1: "ensure_init no_accept4 0 fresh =
      Aborted (fresh\<lparr>init_cnt := 1, in_init := 1,
        libc := resolved_table no_accept4 (take 6 symbols) (libc fresh),
        trace := trace fresh @ [Ev_ensure_init, Ev_fetch_and_add 0] @
          resolved_events no_accept4 (take 6 symbols) @
          [Ev_dlsym ''accept4'', Ev_fprintf (diagnostic ''accept4''), Ev_abort]\<rparr>)"
    using a [THEN conjunct1]
    by (simp add: symbols_def no_accept4_def stranger_def NULL_def fresh_def)
  have b1: "ensure_init failing_start 0 fresh =
      Aborted (fresh\<lparr>errno := 0, init_cnt := 1, in_init := 1,
        libc := resolved_table failing_start symbols (libc fresh), world := 0,
        trace := trace fresh @ [Ev_ensure_init, Ev_fetch_and_add 0] @
          resolved_events failing_start symbols @ [Ev_tas_init, Ev_abort]\<rparr>)"
    using b [THEN conjunct2, THEN conjunct1]
    by (simp add: symbols_def failing_start_def stranger_def fresh_def NULL_def)
  have a2: "is_aborted (interpose no_accept4 0 (Close 5) fresh)"
  proof -
    have "interpose no_accept4 0 (Close 5) fresh = Aborted st"
      if "ensure_init no_accept4 0 fresh = Aborted st" for st
      using a [THEN conjunct2, THEN conjunct2, THEN conjunct1] that
      by (simp del: interpose.simps)
    from this [OF a1] show ?thesis by (simp del: interpose.simps)
  qed
  have b2: "is_aborted (interpose failing_start 0 (Close 5) fresh)"
  proof -
    have "interpose failing_start 0 (Close 5) fresh = Aborted st"
      if "ensure_init failing_start 0 fresh = Aborted st" for st
      using b [THEN conjunct2, THEN conjunct2, THEN conjunct1] that
      by (simp del: interpose.simps)
    from this [OF b1] show ?thesis by (simp del: interpose.simps)
  qed
  have seq: "init_done fresh = 0 \<and> in_init fresh = 0 \<and> init_cnt fresh = 0 \<and>
   symbols = take 6 symbols @ (libc_accept4, ''accept4'') # drop 7 symbols \<and>
   dlsym_next no_accept4 ''accept4'' = NULL \<and>
   ensure_init no_accept4 0 fresh =
     Aborted (fresh\<lparr>init_cnt := 1, in_init := 1,
       libc := (\<lambda>h. if h \<in> {libc_socket, libc_close, libc_shutdown, libc_bind, libc_connect,
                                libc_listen} then 0x7F00 else NULL),
       trace := [Ev_ensure_init, Ev_fetch_and_add 0,
         Ev_dlsym ''socket'', Ev_assign libc_socket 0x7F00,
         Ev_dlsym ''close'', Ev_assign libc_close 0x7F00,
         Ev_dlsym ''shutdown'', Ev_assign libc_shutdown 0x7F00,
         Ev_dlsym ''bind'', Ev_assign libc_bind 0x7F00,
         Ev_dlsym ''connect'', Ev_assign libc_connect 0x7F00,
         Ev_dlsym ''listen'', Ev_assign libc_listen 0x7F00,
         Ev_dlsym ''accept4'', Ev_fprintf (diagnostic ''accept4''), Ev_abort]\<rparr>) \<and>
   is_aborted (interpose no_accept4 0 (Close 5) fresh) \<and>
   tas_init failing_start (errno fresh, world fresh) = (- 1, 0, 0) \<and>
   ensure_init failing_start 0 fresh =
     Aborted (fresh\<lparr>init_cnt := 1, in_init := 1, libc := (\<lambda>h. 0x7F00),
       trace := [Ev_ensure_init, Ev_fetch_and_add 0] @ resolved_events failing_start symbols @
         [Ev_tas_init, Ev_abort]\<rparr>) \<and>
   is_aborted (interpose failing_start 0 (Close 5) fresh)"
    using a1 a2 b1 b2 tab tab6
    by (simp add: fresh_def symbols_def no_accept4_def failing_start_def stranger_def
          resolved_events_def)
  have "set two_threads = {0, 1}" by (rule two_threads_set)
  then have k: "card (set two_threads) < (2::nat) ^ 32" by simp
  have r: "t_pc (run stranger two_threads (boot 0)) 1 = At_return"
    by (simp add: two_threads_final)
  have "\<not> aborted (run stranger two_threads (boot 0)) \<and>
      (\<forall>h. g_libc (run stranger two_threads (boot 0)) h \<noteq> NULL)"
    using d [THEN conjunct2, THEN conjunct2, THEN conjunct2, THEN conjunct1] k r by blast
  then have ok: "\<not> aborted (run stranger two_threads (boot 0))"
    "g_libc (run stranger two_threads (boot 0)) libc_accept4 \<noteq> NULL"
    by simp_all
  have ten: "run no_accept4 [0, 0, 0, 0, 0, 0, 0, 0, 0, 0] (boot 0) =
      \<lparr>g_init_cnt = 1, g_init_done = 0,
       g_libc = resolved_table no_accept4 (take 6 symbols) (\<lambda>h. NULL),
       g_world = 0, aborted = False, t_pc = (\<lambda>t. At_check_done)(0 := At_bind 6),
       t_in_init = (\<lambda>t. 0)(0 := 1), t_errno = (\<lambda>t. 0),
       t_trace = (\<lambda>t. [])(0 := [Ev_ensure_init, Ev_fetch_and_add 0] @
         resolved_events no_accept4 (take 6 symbols))\<rparr>"
    by (simp add: boot_def step_def goto_def emit_def no_accept4_def stranger_def symbols_def
          NULL_def Let_def resolved_events_def resolved_table_def)
       (simp add: eval_nat_numeral)
  have t1: "\<not> aborted (run no_accept4 [0, 0, 0, 0, 0, 0, 0, 0, 0, 0] (boot 0))"
    "t_pc (run no_accept4 [0, 0, 0, 0, 0, 0, 0, 0, 0, 0] (boot 0)) 0 = At_bind 6"
    unfolding ten by simp_all
  have t2: "dlsym_next no_accept4 (snd (symbols ! 6)) = NULL"
    by (simp add: symbols_def no_accept4_def)
  have t3: "aborted (step no_accept4 0 (run no_accept4 [0, 0, 0, 0, 0, 0, 0, 0, 0, 0] (boot 0)))"
  proof -
    have "(6::nat) < length symbols" by (simp add: symbols_def)
    then show ?thesis
      using a [THEN conjunct2, THEN conjunct2, THEN conjunct2, THEN conjunct2, THEN conjunct1]
        t1 t2 by blast
  qed
  have u1: "aborted (run no_accept4 (solo 0) (boot 0))"
    by (simp add: solo_def boot_def step_def goto_def emit_def no_accept4_def stranger_def
          symbols_def NULL_def Let_def)
  have u2: "g_init_done (run no_accept4 (solo 0) (boot 0)) = 0"
  proof -
    have "card (set (solo 0)) < (2::nat) ^ 32" by (simp add: solo_def)
    then show ?thesis
      using c [THEN conjunct2, THEN conjunct2, THEN conjunct2, THEN conjunct1] u1 by blast
  qed
  have u3: "run no_accept4 [0, 1] (run no_accept4 (solo 0) (boot 0)) =
      run no_accept4 (solo 0) (boot 0)"
    using c [THEN conjunct2, THEN conjunct2, THEN conjunct2, THEN conjunct2, THEN conjunct2,
        THEN conjunct2] u1 by blast
  show ?thesis
    using seq k r ok t1 t2 t3 u1 u2 u3 by blast
qed

text \<open>
  A diagnostic message in both cases does not hold: when \<open>tas_init\<close> fails, none is
  written here. And an operation that does not go through \<open>ensure_init\<close> goes on
  whatever the table holds: \<open>select\<close> as the first call of the process runs with no
  pointer resolved.
\<close>

theorem silent_abort_and_early_select:
  "is_aborted (ensure_init failing_start 0 fresh) \<and>
   filter is_fprintf (trace (final (ensure_init failing_start 0 fresh))) = [] \<and>
   libc fresh libc_select = NULL \<and>
   interpose stranger 0 (Select 1 0 0 0 0) fresh =
     Returns (- 1) (fresh\<lparr>errno := 9, world := 1, trace := [Ev_tas (Select 1 0 0 0 0)]\<rparr>)"
proof -
  have r: "\<forall>(h', symb') \<in> set symbols. dlsym_next failing_start symb' \<noteq> NULL"
    by (simp add: symbols_def failing_start_def stranger_def NULL_def)
  have 1: "is_aborted (ensure_init failing_start 0 fresh) \<and>
      filter is_fprintf (trace (final (ensure_init failing_start 0 fresh))) = []"
    by (simp add: ensure_init_def Let_def init_resolved [OF r] start_tas_def obind_def)
       (simp add: fresh_def failing_start_def stranger_def symbols_def resolved_events_def)
  have 2: "libc fresh libc_select = NULL \<and>
      interpose stranger 0 (Select 1 0 0 0 0) fresh =
        Returns (- 1) (fresh\<lparr>errno := 9, world := 1, trace := [Ev_tas (Select 1 0 0 0 0)]\<rparr>)"
    by (simp add: select_def tas_def fresh_def stranger_def log_def)
  show ?thesis using 1 2 by blast
qed

end
